theory Spec2Isabelle
  imports Complex_Main "HOL-Library.Sublist"
begin

section \<open>JavaScript numbers and strings\<close>

text \<open>
  JavaScript numbers are IEEE doubles. The development reads them as exact reals (and as
  integers where the source only ever holds integers: counts, frame indices, the generator
  state). \<open>Math.round\<close> rounds to the nearest integer, a half going up.
\<close>

definition js_round :: "real \<Rightarrow> int" where
  "js_round x = \<lfloor>x + 1 / 2\<rfloor>"

text \<open>\<open>String(n)\<close> of an integer: its decimal digits, with a minus sign below zero.\<close>

fun nat_str :: "nat \<Rightarrow> string" where
  "nat_str n = (if n < 10 then [''0123456789'' ! n]
                else nat_str (n div 10) @ [''0123456789'' ! (n mod 10)])"

definition int_str :: "int \<Rightarrow> string" where
  "int_str i = (if i < 0 then CHR ''-'' # nat_str (nat (- i)) else nat_str (nat i))"

section \<open>Doubles: the percentage of the cookie analyzer\<close>

text \<open>
  \<open>Math.round((trackerCount / total) * 100)\<close> is computed in IEEE double arithmetic, whose
  roundings show in the result (23 of 40 gives 57, not 58). A non-negative double in the
  normal range is \<open>m * 2 ^ e\<close> with \<open>m = 0\<close> or \<open>2 ^ 52 \<le> m < 2 ^ 53\<close>: the pair \<open>(m, e)\<close>.
  Array lengths are below \<open>2 ^ 32\<close> and so are doubles themselves; the quotient of two of
  them and the product with 100 are each rounded to the nearest double, a tie going to the
  even mantissa.
\<close>

type_synonym dbl = "nat \<times> int"

fun bit_length :: "nat \<Rightarrow> nat" where
  "bit_length n = (if n = 0 then 0 else Suc (bit_length (n div 2)))"

text \<open>The double nearest to \<open>p / q\<close>, for \<open>q > 0\<close>.\<close>

definition round_quot :: "nat \<Rightarrow> nat \<Rightarrow> dbl" where
  "round_quot p q =
     (if p = 0 then (0, 0)
      else (let d = int (bit_length p) - int (bit_length q);
                ge = (if d \<ge> 0 then p \<ge> q * 2 ^ nat d else p * 2 ^ nat (- d) \<ge> q);
                ex = (if ge then d else d - 1);
                s = 52 - ex;
                N = (if s \<ge> 0 then p * 2 ^ nat s else p);
                D = (if s \<ge> 0 then q else q * 2 ^ nat (- s));
                k = N div D;
                r = N mod D;
                k2 = (if 2 * r < D then k else if 2 * r > D then k + 1
                      else if even k then k else k + 1)
            in if k2 = 2 ^ 53 then (2 ^ 52, ex + 1 - 52) else (k2, ex - 52)))"

text \<open>The product of a double and a small whole number, rounded.\<close>

definition dbl_times :: "dbl \<Rightarrow> nat \<Rightarrow> dbl" where
  "dbl_times x c =
     (case x of (m, e) \<Rightarrow>
        if e \<ge> 0 then round_quot (m * c * 2 ^ nat e) 1 else round_quot (m * c) (2 ^ nat (- e)))"

text \<open>\<open>Math.round\<close> of a non-negative double: \<open>floor(x + 1/2)\<close>, exactly.\<close>

definition math_round :: "dbl \<Rightarrow> int" where
  "math_round x =
     (case x of (m, e) \<Rightarrow>
        if e \<ge> 0 then int (m * 2 ^ nat e)
        else int ((2 * m + 2 ^ nat (- e)) div 2 ^ nat (1 - e)))"

definition js_percent :: "nat \<Rightarrow> nat \<Rightarrow> int" where
  "js_percent tc n = math_round (dbl_times (round_quot tc n) 100)"

section \<open>extension/js/cookies.js: CookieAnalyzer.analyze\<close>

record cookie =
  domain :: string
  session :: bool
  expirationDate :: "real option"

record lifetimes =
  lt_session :: nat
  shortLived :: nat
  persistent :: nat
  zombie :: nat

record tracker_info =
  ti_domain :: string
  ti_count :: nat
  ti_category :: string

text \<open>The mutable locals of \<open>analyze\<close>, threaded through its first loop.\<close>

record analyze_state =
  trackerCookies :: "(cookie \<times> string) list"
  firstParty :: "cookie list"
  thirdParty :: "cookie list"
  byDomain :: "(string \<times> cookie list) list"
  byCategory :: "string \<rightharpoonup> nat"
  lifetimes_of :: lifetimes

record cookie_report =
  total :: nat
  trackerCount :: nat
  firstPartyCount :: nat
  thirdPartyCount :: nat
  uniqueDomains :: nat
  rep_byCategory :: "string \<rightharpoonup> nat"
  rep_lifetimes :: lifetimes
  topTrackers :: "tracker_info list"
  trackerPercentage :: int
  summary :: "string list"

datatype js_error = TypeError string

text \<open>\<open>domain.replace(/^\./, '')\<close>: one leading dot is dropped.\<close>

fun strip_dot :: "string \<Rightarrow> string" where
  "strip_dot [] = []"
| "strip_dot (c # cs) = (if c = CHR ''.'' then cs else c # cs)"

text \<open>
  \<open>getTrackerCategory\<close> is not defined in the file (it comes with the tracker table of
  \<open>js/trackers.js\<close>): it is a parameter \<open>gtc\<close>. Its result is one of the category names
  that \<open>byCategory\<close> is initialised with, or \<open>None\<close> for a falsy result.
\<close>

datatype tracker_category =
  Advertising | Analytics | Social | Data_brokers | Fingerprinting | Consent_management | Unknown

fun category_name :: "tracker_category \<Rightarrow> string" where
  "category_name Advertising = ''advertising''"
| "category_name Analytics = ''analytics''"
| "category_name Social = ''social''"
| "category_name Data_brokers = ''data_brokers''"
| "category_name Fingerprinting = ''fingerprinting''"
| "category_name Consent_management = ''consent_management''"
| "category_name Unknown = ''unknown''"

definition init_byCategory :: "string \<rightharpoonup> nat" where
  "init_byCategory = [''advertising'' \<mapsto> 0, ''analytics'' \<mapsto> 0, ''social'' \<mapsto> 0,
     ''data_brokers'' \<mapsto> 0, ''fingerprinting'' \<mapsto> 0, ''consent_management'' \<mapsto> 0,
     ''unknown'' \<mapsto> 0]"

definition bump_category :: "(string \<rightharpoonup> nat) \<Rightarrow> string \<Rightarrow> (string \<rightharpoonup> nat)" where
  "bump_category m k = m(k \<mapsto> (case m k of None \<Rightarrow> 1 | Some c \<Rightarrow> c + 1))"

text \<open>
  \<open>byDomain\<close> is an object literal \<open>{}\<close>, so a lookup also finds what \<open>Object.prototype\<close>
  provides. For a domain with one of these names \<open>byDomain[domain]\<close> is a function (or, for
  \<open>__proto__\<close>, the prototype itself): it is truthy, no array is stored, and the call of
  its missing \<open>push\<close> throws a TypeError.
\<close>

definition object_prototype_keys :: "string list" where
  "object_prototype_keys =
     [''constructor'', ''__defineGetter__'', ''__defineSetter__'', ''hasOwnProperty'',
      ''__lookupGetter__'', ''__lookupSetter__'', ''isPrototypeOf'', ''propertyIsEnumerable'',
      ''toString'', ''valueOf'', ''__proto__'', ''toLocaleString'']"

fun own_push :: "(string \<times> cookie list) list \<Rightarrow> string \<Rightarrow> cookie \<Rightarrow> (string \<times> cookie list) list" where
  "own_push [] d c = [(d, [c])]"
| "own_push ((k, cs) # rest) d c =
     (if k = d then (k, cs @ [c]) # rest else (k, cs) # own_push rest d c)"

definition push_domain ::
  "(string \<times> cookie list) list \<Rightarrow> string \<Rightarrow> cookie \<Rightarrow> js_error + (string \<times> cookie list) list" where
  "push_domain bd d c =
     (if d \<in> set object_prototype_keys
      then Inl (TypeError ''byDomain[domain].push is not a function'')
      else Inr (own_push bd d c))"

definition bump_lifetime :: "real \<Rightarrow> cookie \<Rightarrow> lifetimes \<Rightarrow> lifetimes" where
  "bump_lifetime now c l =
     (if session c then l\<lparr>lt_session := lt_session l + 1\<rparr>
      else (case expirationDate c of
              None \<Rightarrow> l
            | Some e \<Rightarrow>
                if e = 0 then l
                else let daysUntilExpiry = (e - now) / 86400 in
                  if daysUntilExpiry < 1 then l\<lparr>shortLived := shortLived l + 1\<rparr>
                  else if daysUntilExpiry > 365 then l\<lparr>zombie := zombie l + 1\<rparr>
                  else l\<lparr>persistent := persistent l + 1\<rparr>))"

text \<open>The body of the first loop, once the cookie is stored under its domain.\<close>

definition classify :: "(string \<Rightarrow> tracker_category option) \<Rightarrow> real \<Rightarrow> analyze_state \<Rightarrow> string \<Rightarrow> cookie \<Rightarrow> analyze_state" where
  "classify gtc now st1 d c =
     (let st2 = (case gtc d of
                   Some cat \<Rightarrow> st1\<lparr>trackerCookies := trackerCookies st1 @ [(c, category_name cat)],
                                  byCategory := bump_category (byCategory st1) (category_name cat),
                                  thirdParty := thirdParty st1 @ [c]\<rparr>
                 | None \<Rightarrow> st1\<lparr>byCategory := bump_category (byCategory st1) ''unknown'',
                              firstParty := firstParty st1 @ [c]\<rparr>)
      in st2\<lparr>lifetimes_of := bump_lifetime now c (lifetimes_of st2)\<rparr>)"

definition analyze_step ::
  "(string \<Rightarrow> tracker_category option) \<Rightarrow> real \<Rightarrow> analyze_state \<Rightarrow> cookie \<Rightarrow> js_error + analyze_state" where
  "analyze_step gtc now st c =
     (let d = strip_dot (domain c)
      in case push_domain (byDomain st) d c of
           Inl err \<Rightarrow> Inl err
         | Inr bd \<Rightarrow> Inr (classify gtc now (st\<lparr>byDomain := bd\<rparr>) d c))"

definition analyze_init :: analyze_state where
  "analyze_init = \<lparr>trackerCookies = [], firstParty = [], thirdParty = [], byDomain = [],
     byCategory = init_byCategory,
     lifetimes_of = \<lparr>lt_session = 0, shortLived = 0, persistent = 0, zombie = 0\<rparr>\<rparr>"

fun analyze_loop ::
  "(string \<Rightarrow> tracker_category option) \<Rightarrow> real \<Rightarrow> analyze_state \<Rightarrow> cookie list \<Rightarrow> js_error + analyze_state" where
  "analyze_loop gtc now st [] = Inr st"
| "analyze_loop gtc now st (c # cs) =
     (case analyze_step gtc now st c of
        Inl err \<Rightarrow> Inl err
      | Inr st' \<Rightarrow> analyze_loop gtc now st' cs)"

text \<open>
  The second loop: one entry per tracker domain, in order of first appearance. Every
  domain that reaches it got through the first loop, so none of them is a name of
  \<open>Object.prototype\<close>.
\<close>

fun count_tracker :: "tracker_info list \<Rightarrow> string \<Rightarrow> string \<Rightarrow> tracker_info list" where
  "count_tracker [] d cat = [\<lparr>ti_domain = d, ti_count = 1, ti_category = cat\<rparr>]"
| "count_tracker (t # ts) d cat =
     (if ti_domain t = d then t\<lparr>ti_count := ti_count t + 1\<rparr> # ts
      else t # count_tracker ts d cat)"

fun trackerDomains :: "tracker_info list \<Rightarrow> (cookie \<times> string) list \<Rightarrow> tracker_info list" where
  "trackerDomains acc [] = acc"
| "trackerDomains acc ((c, cat) # tcs) =
     trackerDomains (count_tracker acc (strip_dot (domain c)) cat) tcs"

text \<open>
  \<open>Object.entries\<close> lists the keys that are array indices (the decimal numeral of a number
  up to \<open>2 ^ 32 - 2\<close>) first, in ascending order, and then the other keys in the order in
  which they were added.
\<close>

definition is_digit :: "char \<Rightarrow> bool" where
  "is_digit c = (48 \<le> (of_char c :: nat) \<and> (of_char c :: nat) \<le> 57)"

definition num_of :: "string \<Rightarrow> nat" where
  "num_of s = foldl (\<lambda>a c. 10 * a + (of_char c - 48)) 0 s"

definition is_array_index :: "string \<Rightarrow> bool" where
  "is_array_index s =
     (s \<noteq> [] \<and> list_all is_digit s \<and> (s = ''0'' \<or> hd s \<noteq> CHR ''0'') \<and> num_of s \<le> 4294967294)"

definition js_entries :: "tracker_info list \<Rightarrow> tracker_info list" where
  "js_entries ts =
     sort_key (\<lambda>t. num_of (ti_domain t)) (filter (\<lambda>t. is_array_index (ti_domain t)) ts)
     @ filter (\<lambda>t. \<not> is_array_index (ti_domain t)) ts"

text \<open>\<open>generateCookieSummary(total, trackerCount, lifetimes, byCategory)\<close>\<close>

definition category_line :: "(string \<rightharpoonup> nat) \<Rightarrow> string \<Rightarrow> string \<Rightarrow> string list" where
  "category_line byCat k txt =
     (case byCat k of None \<Rightarrow> [] | Some n \<Rightarrow> if n > 0 then [nat_str n @ txt] else [])"

definition generateCookieSummary :: "nat \<Rightarrow> nat \<Rightarrow> lifetimes \<Rightarrow> (string \<rightharpoonup> nat) \<Rightarrow> string list" where
  "generateCookieSummary n tc lts byCat =
     [nat_str n @ '' cookies found across your browser.'',
      nat_str tc @ '' ('' @ int_str (if n > 0 then js_percent tc n else 0)
        @ ''%) belong to known tracking companies.'']
     @ category_line byCat ''advertising'' '' advertising cookies are following you across websites.''
     @ category_line byCat ''analytics'' '' analytics cookies are recording your behavior.''
     @ category_line byCat ''social'' '' social media cookies track you even outside those platforms.''
     @ category_line byCat ''data_brokers'' '' data broker cookies are building a profile to sell.''
     @ (if zombie lts > 0
        then [nat_str (zombie lts) @ '' '' @ [CHR 0x22] @ ''zombie'' @ [CHR 0x22]
              @ '' cookies expire more than a year from now.'']
        else [])"

text \<open>
  \<open>analyze(cookies)\<close>, with the clock reading \<open>now\<close> (\<open>Date.now() / 1000\<close>): the report, or
  the error thrown in the first loop.
\<close>

definition analyze ::
  "(string \<Rightarrow> tracker_category option) \<Rightarrow> real \<Rightarrow> cookie list \<Rightarrow> js_error + cookie_report" where
  "analyze gtc now cookies =
     (let total = length cookies
      in case analyze_loop gtc now analyze_init cookies of
           Inl err \<Rightarrow> Inl err
         | Inr st \<Rightarrow>
             (let tc = length (trackerCookies st)
              in Inr \<lparr>total = total,
                      trackerCount = tc,
                      firstPartyCount = length (firstParty st),
                      thirdPartyCount = length (thirdParty st),
                      uniqueDomains = length (byDomain st),
                      rep_byCategory = byCategory st,
                      rep_lifetimes = lifetimes_of st,
                      topTrackers = take 20 (sort_key (\<lambda>t. - int (ti_count t))
                                       (js_entries (trackerDomains [] (trackerCookies st)))),
                      trackerPercentage = (if total > 0 then js_percent tc total else 0),
                      summary = generateCookieSummary total tc (lifetimes_of st) (byCategory st)\<rparr>))"

section \<open>render-cli-v4.js: the raw block list and the cookie section of buildMonolog\<close>

text \<open>
  The cookie object that \<open>buildMonolog\<close> reads from the parsed profile
  (\<open>fpData.extension.cookies\<close>). Its counts are integers; \<open>trackerPercentage\<close> and
  the per-category counts may be absent.
\<close>

record tracker_json =
  tj_domain :: string
  tj_count :: int
  tj_category :: string

record cookies_json =
  cj_total :: int
  cj_trackerCount :: int
  cj_trackerPercentage :: "real option"
  cj_byCategory :: "string \<rightharpoonup> int"
  cj_topTrackers :: "tracker_json list"
  cj_zombie :: "int option"

record raw_block =
  rb_lines :: "string list"
  importance :: string

text \<open>\<open>add(lines, importance)\<close>: empty lines are filtered out, a missing tag is \<open>normal\<close>.\<close>

definition add :: "raw_block list \<Rightarrow> string list \<Rightarrow> string \<Rightarrow> raw_block list" where
  "add raw ls imp =
     raw @ [\<lparr>rb_lines = filter (\<lambda>l. l \<noteq> []) ls,
             importance = (if imp = [] then ''normal'' else imp)\<rparr>]"

text \<open>\<open>s.replace(pat, rep)\<close> with a string pattern replaces its first occurrence.\<close>

fun replace_first :: "string \<Rightarrow> string \<Rightarrow> string \<Rightarrow> string" where
  "replace_first pat rep [] = (if pat = [] then rep else [])"
| "replace_first pat rep (c # cs) =
     (if take (length pat) (c # cs) = pat then rep @ drop (length pat) (c # cs)
      else c # replace_first pat rep cs)"

fun js_join :: "string \<Rightarrow> string list \<Rightarrow> string" where
  "js_join sep [] = []"
| "js_join sep [x] = x"
| "js_join sep (x # y # ys) = x @ sep @ js_join sep (y # ys)"

definition category_count :: "cookies_json \<Rightarrow> string \<Rightarrow> int" where
  "category_count c k = (case cj_byCategory c k of None \<Rightarrow> 0 | Some n \<Rightarrow> n)"

text \<open>\<open>cookies.trackerPercentage || (cookies.trackerCount / cookies.total * 100)\<close>\<close>

definition surveillance_percent :: "cookies_json \<Rightarrow> real" where
  "surveillance_percent c =
     (case cj_trackerPercentage c of
        Some p \<Rightarrow> if p \<noteq> 0 then p
                  else real_of_int (cj_trackerCount c) / real_of_int (cj_total c) * 100
      | None \<Rightarrow> real_of_int (cj_trackerCount c) / real_of_int (cj_total c) * 100)"

definition cookie_summary :: "raw_block list \<Rightarrow> cookies_json \<Rightarrow> raw_block list" where
  "cookie_summary raw c =
     add raw [int_str (cj_total c) @ '' cookies found.'',
              int_str (cj_trackerCount c) @ '' belong to known trackers.'',
              int_str (js_round (surveillance_percent c)) @ ''% surveillance.''] ''normal''"

definition cookie_breakdown :: "raw_block list \<Rightarrow> cookies_json \<Rightarrow> raw_block list" where
  "cookie_breakdown raw c =
     (let adv = category_count c ''advertising'';
          soc = category_count c ''social'';
          brk = category_count c ''data_brokers''
      in if adv > 0 \<or> soc > 0 \<or> brk > 0
         then add raw ((if adv > 0 then [int_str adv @ '' advertising.''] else [])
                     @ (if soc > 0 then [int_str soc @ '' social media.''] else [])
                     @ (if brk > 0 then [int_str brk @ '' data brokers.''] else [])) ''normal''
         else raw)"

definition cookie_top :: "raw_block list \<Rightarrow> cookies_json \<Rightarrow> raw_block list" where
  "cookie_top raw c =
     (let topT = take 5 (cj_topTrackers c)
      in if length topT > 0
         then add raw (map (\<lambda>t. tj_domain t @ '': '' @ int_str (tj_count t) @ ''.'') topT) ''normal''
         else raw)"

definition cookie_zombies :: "raw_block list \<Rightarrow> cookies_json \<Rightarrow> raw_block list" where
  "cookie_zombies raw c =
     (let zombies = (case cj_zombie c of None \<Rightarrow> 0 | Some z \<Rightarrow> z)
      in if zombies > 0
         then add (add raw [int_str zombies @ '' zombie cookies.'', ''survive clearing. regenerate.''] ''normal'')
                  [''deleted cookies last week?'', [], ''they came back.''] ''linger''
         else raw)"

definition cookie_social :: "raw_block list \<Rightarrow> cookies_json \<Rightarrow> raw_block list" where
  "cookie_social raw c =
     (let socialTrackers = filter (\<lambda>t. tj_category t = ''social'') (cj_topTrackers c)
      in if length socialTrackers \<ge> 2
         then add raw [js_join ''. '' (map (\<lambda>t. replace_first ''.com'' [] (tj_domain t)) socialTrackers) @ ''.'',
                       ''tracking outside their platforms.'',
                       ''the social graph is the product.''] ''normal''
         else raw)"

definition cookie_brokers :: "raw_block list \<Rightarrow> cookies_json \<Rightarrow> raw_block list" where
  "cookie_brokers raw c =
     (let brokers = filter (\<lambda>t. tj_category t = ''data_brokers'') (cj_topTrackers c)
      in if length brokers > 0
         then add raw [js_join ''. '' (map tj_domain brokers) @ ''.'',
                       ''device graph company.'',
                       ''phone. laptop. tablet. all linked.''] ''linger''
         else raw)"

text \<open>
  Section 14 of \<open>buildMonolog\<close>, on the blocks \<open>raw\<close> pushed so far; \<open>None\<close> is a profile
  without cookie data.
\<close>

definition cookieSection :: "raw_block list \<Rightarrow> cookies_json option \<Rightarrow> raw_block list" where
  "cookieSection raw cookies =
     (case cookies of
        None \<Rightarrow> raw
      | Some c \<Rightarrow>
          if cj_total c > 0
          then (let r1 = cookie_summary raw c;
                    r2 = add r1 [''subject agreed to this.'', ''somewhere in a terms of service.'',
                                 ''subject didn't read it.''] ''linger'';
                    r3 = cookie_breakdown r2 c;
                    r4 = cookie_top r3 c;
                    r5 = cookie_zombies r4 c;
                    r6 = cookie_social r5 c
                in cookie_brokers r6 c)
          else raw)"

text \<open>The analyzer's report as the cookie object of an exported profile.\<close>

definition report_json :: "cookie_report \<Rightarrow> cookies_json" where
  "report_json r =
     \<lparr>cj_total = int (total r),
      cj_trackerCount = int (trackerCount r),
      cj_trackerPercentage = Some (real_of_int (trackerPercentage r)),
      cj_byCategory = (\<lambda>k. map_option int (rep_byCategory r k)),
      cj_topTrackers = map (\<lambda>t. \<lparr>tj_domain = ti_domain t, tj_count = int (ti_count t),
                                   tj_category = ti_category t\<rparr>) (topTrackers r),
      cj_zombie = Some (int (zombie (rep_lifetimes r)))\<rparr>"

section \<open>The frame timing loop of main (render-cli.js, render-cli-v2.js, render-cli-v4.js)\<close>

text \<open>
  A block once its hold time is known. In v4 the loop over \<open>scaredTiming\<close> stores it as
  \<open>holdSec\<close>; v1 and v2 write it into the block literal as \<open>hold\<close> and have no importance
  tag, which the timing loop never reads.
\<close>

record block = raw_block +
  holdSec :: real

record blockTiming =
  start :: int
  duration :: int
  linesFrames :: int
  holdFrames :: int

definition FPS :: int where "FPS = 30"
definition LINE_FADE :: int where "LINE_FADE = 8"
definition LINE_GAP :: int where "LINE_GAP = 6"
definition FADE_OUT :: int where "FADE_OUT = 10"

text \<open>\<open>BLOCK_BLACK\<close> is 12 in v1 and v2 and 8 in v4: the loop takes it as \<open>bb\<close>.\<close>

definition BLOCK_BLACK_v2 :: int where "BLOCK_BLACK_v2 = 12"

text \<open>The body of \<open>for (const block of blocks)\<close>, on \<open>(totalFrames, blockTimings)\<close>.\<close>

fun timing_loop :: "int \<Rightarrow> block list \<Rightarrow> int \<times> blockTiming list \<Rightarrow> int \<times> blockTiming list" where
  "timing_loop bb [] st = st"
| "timing_loop bb (b # bs) (totalFrames, blockTimings) =
     (let lf = int (length (rb_lines b)) * LINE_GAP + LINE_FADE;
          hf = js_round (holdSec b * real_of_int FPS);
          dur = lf + hf + FADE_OUT + bb
      in timing_loop bb bs
           (totalFrames + dur,
            blockTimings @ [\<lparr>start = totalFrames, duration = dur, linesFrames = lf, holdFrames = hf\<rparr>]))"

text \<open>The loop from \<open>totalFrames = 0\<close>, then \<open>totalFrames += 30\<close> (black at the end).\<close>

definition frame_timing :: "int \<Rightarrow> block list \<Rightarrow> int \<times> blockTiming list" where
  "frame_timing bb blocks =
     (case timing_loop bb blocks (0, []) of (totalFrames, blockTimings) \<Rightarrow> (totalFrames + 30, blockTimings))"

text \<open>
  The test of the frame loop's scan over the blocks: frame \<open>gf\<close> is inside the interval of
  timing \<open>bt\<close> unless \<open>f < 0 || f >= bt.duration\<close> for \<open>f = gf - bt.start\<close>.
\<close>

definition in_block :: "blockTiming \<Rightarrow> int \<Rightarrow> bool" where
  "in_block bt gf = (let f = gf - start bt in \<not> (f < 0 \<or> f \<ge> duration bt))"

text \<open>
  The specification's duration of a block:
  \<open>lines * LINE_GAP + LINE_FADE + round(holdSeconds * fps) + FADE_OUT + BLOCK_BLACK\<close>.
\<close>

definition spec_duration :: "int \<Rightarrow> block \<Rightarrow> int" where
  "spec_duration bb b =
     int (length (rb_lines b)) * LINE_GAP + LINE_FADE + js_round (holdSec b * real_of_int FPS)
       + FADE_OUT + bb"

text \<open>The timings the specification expects, starting at frame \<open>t0\<close>.\<close>

fun spec_timings :: "int \<Rightarrow> int \<Rightarrow> block list \<Rightarrow> blockTiming list" where
  "spec_timings bb t0 [] = []"
| "spec_timings bb t0 (b # bs) =
     \<lparr>start = t0, duration = spec_duration bb b,
      linesFrames = int (length (rb_lines b)) * LINE_GAP + LINE_FADE,
      holdFrames = js_round (holdSec b * real_of_int FPS)\<rparr>
     # spec_timings bb (t0 + spec_duration bb b) bs"

section \<open>render-cli-v4.js: the seeded generator and scaredTiming\<close>

text \<open>
  The remainder operator \<open>%\<close> of JavaScript truncates: the result has the sign of the
  dividend.
\<close>

definition js_rem :: "int \<Rightarrow> int \<Rightarrow> int" where
  "js_rem a b = sgn a * (\<bar>a\<bar> mod \<bar>b\<bar>)"


definition rng :: "int \<Rightarrow> real \<times> int" where
  "rng seed = (let seed' = js_rem (seed * 16807) 2147483647
               in (real_of_int (seed' - 1) / 2147483646, seed'))"

definition scaredTiming :: "nat \<Rightarrow> nat \<Rightarrow> nat \<Rightarrow> string \<Rightarrow> int \<Rightarrow> real \<times> int" where
  "scaredTiming index total_blocks lineCount imp seed =
     (let progress = real index / real (max total_blocks 1);
          curve = (if progress < 15 / 100 then 13 / 10
                   else if progress < 5 / 10 then 75 / 100
                   else if progress < 75 / 100 then 6 / 10
                   else 11 / 10 + (progress - 75 / 100) * 4);
          base = 3 / 10 + real lineCount * (22 / 100);
          impMult = (if imp = ''flash'' then 35 / 100 else if imp = ''linger'' then 22 / 10 else 1);
          r = rng seed;
          jitter = 75 / 100 + fst r * (5 / 10)
      in (max (25 / 100) (base * curve * impMult * jitter), snd r))"

text \<open>
  The hold-time model in the words of the specification: the position curve and the
  importance multiplier.
\<close>

definition spec_curve :: "real \<Rightarrow> real" where
  "spec_curve progress =
     (if progress < 15 / 100 then 13 / 10
      else if progress < 5 / 10 then 75 / 100
      else if progress < 75 / 100 then 6 / 10
      else 11 / 10 + (progress - 75 / 100) * 4)"

definition spec_impMult :: "string \<Rightarrow> real" where
  "spec_impMult imp =
     (if imp = ''flash'' then 35 / 100 else if imp = ''linger'' then 22 / 10 else 1)"

definition spec_jitter :: "int \<Rightarrow> real" where
  "spec_jitter seed = 75 / 100 + fst (rng seed) * (5 / 10)"


fun holds_loop :: "nat \<Rightarrow> nat \<Rightarrow> raw_block list \<Rightarrow> int \<Rightarrow> block list \<times> int" where
  "holds_loop i n [] seed = ([], seed)"
| "holds_loop i n (b # bs) seed =
     (let h = scaredTiming i n (length (rb_lines b)) (importance b) seed;
          rest = holds_loop (Suc i) n bs (snd h)
      in (\<lparr>rb_lines = rb_lines b, importance = importance b, holdSec = fst h\<rparr> # fst rest,
          snd rest))"



section \<open>The video renderer module: generateNetwork and updateNodes\<close>

definition W :: real where "W = 1920"
definition H :: real where "H = 1080"
definition CX :: real where "CX = W / 2"
definition CY :: real where "CY = H / 2"

record contribution =
  c_label :: string
  c_bits :: real
  c_present :: bool

text \<open>\<open>entropy.contributions || []\<close>: a missing list is the empty list.\<close>

record entropy =
  contributions :: "contribution list"
  totalBits :: real

record node =
  n_x :: real
  n_y :: real
  n_r :: real
  n_bits :: real
  n_label :: string
  n_orbit :: real
  n_angle :: real
  n_speed :: real
  n_base :: bool

record connection =
  conn_a :: nat
  conn_b :: nat
  conn_dist :: real

record ring =
  radius :: real
  width :: real
  ring_speed :: real

record particle =
  p_x :: real
  p_y :: real
  p_vx :: real
  p_vy :: real
  p_r :: real
  p_life :: real

text \<open>The module variables that \<open>generateNetwork\<close> and \<open>updateNodes\<close> read and write.\<close>

record world =
  w_seed :: int
  nodes :: "node list"
  connections :: "connection list"
  particles :: "particle list"
  rings :: "ring list"

definition reset_world :: "world \<Rightarrow> world" where
  "reset_world w = w\<lparr>w_seed := 42, nodes := [], connections := [], particles := [], rings := []\<rparr>"

definition center_node :: "entropy \<Rightarrow> node" where
  "center_node e = \<lparr>n_x = CX, n_y = CY, n_r = 6, n_bits = totalBits e, n_label = [],
                    n_orbit = 0, n_angle = 0, n_speed = 0, n_base = True\<rparr>"

text \<open>\<open>Math.max(...contribs.map(c => c.bits), 1)\<close>\<close>

definition maxBits_of :: "contribution list \<Rightarrow> real" where
  "maxBits_of contribs = foldr max (map c_bits contribs) 1"

text \<open>
  The body of the loop over the present contributions, at index \<open>i\<close> of
  \<open>n = contribs.length\<close>; \<open>u\<close> is the number that its one call of \<open>rng\<close> returned.
\<close>

definition data_node :: "nat \<Rightarrow> nat \<Rightarrow> real \<Rightarrow> contribution \<Rightarrow> real \<Rightarrow> node" where
  "data_node i n maxBits c u =
     (let layer = i div 4;
          inLayer = real (i mod 4) + (if layer > 0 then 1 / 2 else 0);
          cnt = min (4 + int layer) (int n - int layer * 4);
          angle = (inLayer / real_of_int (max cnt 4)) * pi * 2 + real layer * (4 / 10);
          dist = 140 + real layer * 130 + (c_bits c / maxBits) * 60;
          r = 2 + (c_bits c / maxBits) * 5
      in \<lparr>n_x = CX + cos angle * dist, n_y = CY + sin angle * dist, n_r = r,
          n_bits = c_bits c, n_label = c_label c, n_orbit = dist, n_angle = angle,
          n_speed = 2 / 1000 + u * (4 / 1000), n_base = False\<rparr>)"

fun data_nodes :: "nat \<Rightarrow> nat \<Rightarrow> real \<Rightarrow> contribution list \<Rightarrow> int \<Rightarrow> node list \<times> int" where
  "data_nodes i n maxBits [] sd = ([], sd)"
| "data_nodes i n maxBits (c # cs) sd =
     (case rng sd of (u, sd') \<Rightarrow>
        (case data_nodes (Suc i) n maxBits cs sd' of (rest, sd'') \<Rightarrow>
           (data_node i n maxBits c u # rest, sd'')))"

text \<open>An ambient node: four calls of \<open>rng\<close> (angle, distance, radius, speed).\<close>

definition ambient_node :: "int \<Rightarrow> node \<times> int" where
  "ambient_node sd =
     (let r1 = rng sd;
          angle = fst r1 * pi * 2;
          r2 = rng (snd r1);
          dist = 80 + fst r2 * 420;
          r3 = rng (snd r2);
          r4 = rng (snd r3)
      in (\<lparr>n_x = CX + cos angle * dist, n_y = CY + sin angle * dist,
           n_r = 1 / 2 + fst r3 * (3 / 2), n_bits = 0, n_label = [], n_orbit = dist,
           n_angle = angle, n_speed = 1 / 1000 + fst r4 * (5 / 1000), n_base = False\<rparr>,
          snd r4))"

fun ambient_nodes :: "nat \<Rightarrow> int \<Rightarrow> node list \<times> int" where
  "ambient_nodes 0 sd = ([], sd)"
| "ambient_nodes (Suc k) sd =
     (case ambient_node sd of (nd, sd') \<Rightarrow>
        (case ambient_nodes k sd' of (rest, sd'') \<Rightarrow> (nd # rest, sd'')))"

text \<open>
  The body of the double loop over \<open>i < j\<close>. The condition short-circuits: \<open>rng\<close> is called
  only for a pair that is close enough and has no information-bearing end.
\<close>

definition conn_step :: "node list \<Rightarrow> connection list \<times> int \<Rightarrow> nat \<times> nat \<Rightarrow> connection list \<times> int" where
  "conn_step ns st ij =
     (let i = fst ij; j = snd ij;
          dx = n_x (ns ! i) - n_x (ns ! j);
          dy = n_y (ns ! i) - n_y (ns ! j);
          d = sqrt (dx * dx + dy * dy)
      in if d < 220
         then (if n_bits (ns ! i) > 0 \<or> n_bits (ns ! j) > 0
               then (fst st @ [\<lparr>conn_a = i, conn_b = j, conn_dist = d\<rparr>], snd st)
               else (let rs = rng (snd st)
                     in if fst rs > 7 / 10
                        then (fst st @ [\<lparr>conn_a = i, conn_b = j, conn_dist = d\<rparr>], snd rs)
                        else (fst st, snd rs)))
         else st)"

text \<open>The pairs \<open>(i, j)\<close> in the order the double loop visits them.\<close>

definition index_pairs :: "nat \<Rightarrow> (nat \<times> nat) list" where
  "index_pairs n = concat (map (\<lambda>i. map (\<lambda>j. (i, j)) [Suc i..<n]) [0..<n])"

definition connect :: "node list \<Rightarrow> int \<Rightarrow> connection list \<times> int" where
  "connect ns sd = foldl (conn_step ns) ([], sd) (index_pairs (length ns))"

definition initial_rings :: "ring list" where
  "initial_rings = [\<lparr>radius = 140, width = 5 / 10, ring_speed = 3 / 1000\<rparr>,
                    \<lparr>radius = 270, width = 3 / 10, ring_speed = - (2 / 1000)\<rparr>,
                    \<lparr>radius = 400, width = 2 / 10, ring_speed = 1 / 1000\<rparr>]"

text \<open>A floating particle: six calls of \<open>rng\<close>, in the order of the literal.\<close>

definition new_particle :: "int \<Rightarrow> particle \<times> int" where
  "new_particle sd =
     (let r1 = rng sd; r2 = rng (snd r1); r3 = rng (snd r2); r4 = rng (snd r3);
          r5 = rng (snd r4); r6 = rng (snd r5)
      in (\<lparr>p_x = fst r1 * W, p_y = fst r2 * H, p_vx = (fst r3 - 1 / 2) * (1 / 2),
           p_vy = (fst r4 - 1 / 2) * (1 / 2), p_r = 1 / 2 + fst r5 * (3 / 2),
           p_life = fst r6\<rparr>,
          snd r6))"

fun particles_loop :: "nat \<Rightarrow> int \<Rightarrow> particle list \<times> int" where
  "particles_loop 0 sd = ([], sd)"
| "particles_loop (Suc k) sd =
     (case new_particle sd of (p, sd') \<Rightarrow>
        (case particles_loop k sd' of (rest, sd'') \<Rightarrow> (p # rest, sd'')))"

definition push_nodes :: "entropy \<Rightarrow> world \<Rightarrow> world" where
  "push_nodes e w =
     (let contribs = filter c_present (contributions e);
          maxBits = maxBits_of contribs;
          w1 = w\<lparr>nodes := nodes w @ [center_node e]\<rparr>;
          dn = data_nodes 0 (length contribs) maxBits contribs (w_seed w1);
          w2 = w1\<lparr>nodes := nodes w1 @ fst dn, w_seed := snd dn\<rparr>;
          an = ambient_nodes 30 (w_seed w2)
      in w2\<lparr>nodes := nodes w2 @ fst an, w_seed := snd an\<rparr>)"

definition push_connections :: "world \<Rightarrow> world" where
  "push_connections w =
     (let cs = connect (nodes w) (w_seed w)
      in w\<lparr>connections := connections w @ fst cs, w_seed := snd cs\<rparr>)"

definition push_rings :: "world \<Rightarrow> world" where
  "push_rings w = w\<lparr>rings := rings w @ initial_rings\<rparr>"

definition push_particles :: "world \<Rightarrow> world" where
  "push_particles w =
     (let ps = particles_loop 60 (w_seed w)
      in w\<lparr>particles := particles w @ fst ps, w_seed := snd ps\<rparr>)"

text \<open>
  \<open>generateNetwork(data, entropy)\<close> on the module state \<open>w\<close> it finds; \<open>data\<close> is never
  read.
\<close>

definition generateNetwork :: "entropy \<Rightarrow> world \<Rightarrow> world" where
  "generateNetwork e w = push_particles (push_rings (push_connections (push_nodes e (reset_world w))))"

text \<open>
  \<open>updateNodes(t)\<close>: the loop \<open>for (let i = 1; i < nodes.length; i++)\<close> updates node \<open>i\<close> in
  place; \<open>t\<close> is never read.
\<close>

definition rotate_node :: "node \<Rightarrow> node" where
  "rotate_node n =
     (let n1 = n\<lparr>n_angle := n_angle n + n_speed n\<rparr>;
          n2 = n1\<lparr>n_x := CX + cos (n_angle n1) * n_orbit n1\<rparr>
      in n2\<lparr>n_y := CY + sin (n_angle n2) * n_orbit n2\<rparr>)"

function update_nodes_loop :: "nat \<Rightarrow> node list \<Rightarrow> node list" where
  "update_nodes_loop i ns =
     (if i < length ns then update_nodes_loop (Suc i) (ns[i := rotate_node (ns ! i)]) else ns)"
  by pat_completeness auto
termination
  by (relation "measure (\<lambda>(i, ns). length ns - i)") auto

declare update_nodes_loop.simps [simp del]

definition step_particle :: "particle \<Rightarrow> particle" where
  "step_particle p =
     (let p1 = p\<lparr>p_x := p_x p + p_vx p\<rparr>;
          p2 = p1\<lparr>p_y := p_y p1 + p_vy p1\<rparr>;
          p3 = p2\<lparr>p_life := p_life p2 + 3 / 1000\<rparr>;
          p4 = (if p_x p3 < 0 then p3\<lparr>p_x := W\<rparr> else p3);
          p5 = (if p_x p4 > W then p4\<lparr>p_x := 0\<rparr> else p4);
          p6 = (if p_y p5 < 0 then p5\<lparr>p_y := H\<rparr> else p5)
      in if p_y p6 > H then p6\<lparr>p_y := 0\<rparr> else p6)"

definition updateNodes :: "real \<Rightarrow> world \<Rightarrow> world" where
  "updateNodes t w =
     w\<lparr>nodes := update_nodes_loop 1 (nodes w), particles := map step_particle (particles w)\<rparr>"

text \<open>
  What the specification says one frame does to a node other than the center: it turns by
  its speed on its orbit around the center.
\<close>

definition spec_rotate :: "node \<Rightarrow> node" where
  "spec_rotate n =
     n\<lparr>n_angle := n_angle n + n_speed n,
       n_x := CX + cos (n_angle n + n_speed n) * n_orbit n,
       n_y := CY + sin (n_angle n + n_speed n) * n_orbit n\<rparr>"

section \<open>The frame loop of main and the encoder's input stream\<close>

text \<open>
  The loop writes one buffer per frame to \<open>ffmpeg.stdin\<close>, the pipe to the encoder. What a
  call of \<open>write\<close> comes to is decided by the stream, for each call number:
  \<^item> \<open>Accepted\<close>: the chunk is taken and \<open>write\<close> returns \<open>true\<close>;
  \<^item> \<open>FullDrains\<close>: the chunk is taken, \<open>write\<close> returns \<open>false\<close> (the buffer is above the
    high-water mark), and the \<open>drain\<close> event the loop then waits for fires;
  \<^item> \<open>FullNeverDrains\<close>: the same, but the \<open>drain\<close> event never comes;
  \<^item> \<open>PipeBroken txt\<close>: the encoder has gone away and the chunk does not reach it; the
    stream reports the failure (\<open>write EPIPE\<close>) with an \<open>error\<close> event. None of the
    renderers listens for it, and \<open>ffmpegDone\<close> is awaited only after the loop, so the
    process ends here with the uncaught error \<open>txt\<close>.

  The stream is the list of chunks handed to the encoder so far and the number of \<open>write\<close>
  calls; the steps of the loop are logged.
\<close>

datatype write_answer = Accepted | FullDrains | FullNeverDrains | PipeBroken string

datatype event = Wrote int | Suspended int | Resumed int

record 'f stream =
  written :: "'f list"
  calls :: nat
  steps :: "event list"

datatype 'f outcome = Done "'f stream" | Stalled "'f stream" | Broke "'f stream" string

fun stream_of :: "'f outcome \<Rightarrow> 'f stream" where
  "stream_of (Done s) = s"
| "stream_of (Stalled s) = s"
| "stream_of (Broke s txt) = s"

text \<open>\<open>ffmpeg.stdin.write(buf)\<close> under the answer \<open>a\<close>.\<close>

definition stdin_write :: "write_answer \<Rightarrow> 'f stream \<Rightarrow> int \<Rightarrow> 'f \<Rightarrow> 'f stream" where
  "stdin_write a s gf buf =
     s\<lparr>written := (case a of PipeBroken txt \<Rightarrow> written s | _ \<Rightarrow> written s @ [buf]),
       calls := calls s + 1,
       steps := steps s @ [Wrote gf]\<rparr>"

definition canWrite :: "write_answer \<Rightarrow> bool" where
  "canWrite a = (a = Accepted)"

text \<open>
  \<open>for (let gf = 0; gf < totalFrames; gf++)\<close> with
  \<open>if (!canWrite) await new Promise(resolve => ffmpeg.stdin.once('drain', resolve))\<close>;
  \<open>render gf\<close> is the buffer painted for frame \<open>gf\<close>. The await has no timeout: a drain
  that never fires leaves the loop suspended for good (\<open>Stalled\<close>).
\<close>

function frame_loop ::
  "(nat \<Rightarrow> write_answer) \<Rightarrow> (int \<Rightarrow> 'f) \<Rightarrow> int \<Rightarrow> int \<Rightarrow> 'f stream \<Rightarrow> 'f outcome" where
  "frame_loop ans render totalFrames gf s =
     (if gf < totalFrames
      then (let a = ans (calls s);
                s1 = stdin_write a s gf (render gf)
            in case a of
                 PipeBroken txt \<Rightarrow> Broke s1 txt
               | FullNeverDrains \<Rightarrow> Stalled (s1\<lparr>steps := steps s1 @ [Suspended gf]\<rparr>)
               | FullDrains \<Rightarrow>
                   frame_loop ans render totalFrames (gf + 1)
                     (s1\<lparr>steps := steps s1 @ [Suspended gf, Resumed gf]\<rparr>)
               | Accepted \<Rightarrow> frame_loop ans render totalFrames (gf + 1) s1)
      else Done s)"
  by pat_completeness auto
termination
  by (relation "measure (\<lambda>(ans, render, totalFrames, gf, s). nat (totalFrames - gf))") auto

declare frame_loop.simps [simp del]

definition new_stream :: "'f stream" where
  "new_stream = \<lparr>written = [], calls = 0, steps = []\<rparr>"

text \<open>A call that hands its chunk over and lets the loop go on.\<close>

definition delivered :: "write_answer \<Rightarrow> bool" where
  "delivered a = (a = Accepted \<or> a = FullDrains)"

text \<open>
  What the specification expects of the loop's steps at a frame: a write, and after a write
  that reported a full buffer a suspension that lasts until the drain.
\<close>

definition spec_steps :: "(nat \<Rightarrow> write_answer) \<Rightarrow> nat \<Rightarrow> int \<Rightarrow> event list" where
  "spec_steps ans k gf =
     (if canWrite (ans k) then [Wrote gf] else [Wrote gf, Suspended gf, Resumed gf])"

text \<open>
  The stream as the specification has it when the loop arrives at frame \<open>n\<close>: frames
  \<open>0\<close> to \<open>n - 1\<close> written, one call each.
\<close>

definition arrived :: "(nat \<Rightarrow> write_answer) \<Rightarrow> (int \<Rightarrow> 'f) \<Rightarrow> int \<Rightarrow> 'f stream" where
  "arrived ans render n =
     \<lparr>written = map render [0..n - 1], calls = nat n,
      steps = concat (map (\<lambda>g. spec_steps ans (nat g) g) [0..n - 1])\<rparr>"

section \<open>The encoder's end, the audio step and the output file\<close>

text \<open>
  The file system is a map from paths to contents. What the external programs do is decided
  outside the renderer: how ffmpeg ends, what it left at the path it was told to write,
  whether the sonifier or the audio generator throws, and how the merge ends. ffmpeg's end,
  as main meets it once the frame loop is over and \<open>ffmpeg.stdin.end()\<close> is called:
  \<^item> \<open>Closed code err eff\<close>: ffmpeg has read its input to the end and the \<open>close\<close> event
    comes with the exit code (\<open>None\<close> for an end by signal) and the stderr text \<open>err\<close>;
  \<^item> \<open>SpawnError msg\<close>: the \<open>error\<close> event of the child process (ffmpeg could not be
    started) comes while \<open>ffmpegDone\<close> is awaited;
  \<^item> \<open>InputError txt eff\<close>: ffmpeg went away with frames still buffered for it; the
    \<open>error\<close> event of \<open>ffmpeg.stdin\<close>, which has no listener, ends the process with the
    uncaught error \<open>txt\<close>.
\<close>

type_synonym path = string
type_synonym bytes = "nat list"
type_synonym filesys = "path \<rightharpoonup> bytes"

datatype file_effect = Untouched | Left bytes

datatype encoder_end =
  Closed "int option" string file_effect | SpawnError string | InputError string file_effect

datatype merge_end = Merged bytes | MergeThrew file_effect

datatype sonify_end = SonifyThrew | NoWav | WavFound

datatype audio_gen = AudioThrew string | AudioWritten bytes

text \<open>
  How a run of main ends: it returns (\<open>RenderOk\<close>); an error thrown inside main reaches
  \<open>main().catch\<close>, which prints its message and exits with status 1 (\<open>RenderFailed\<close>); an
  error outside main's control ends the process (\<open>Crashed\<close>); main waits for ever (\<open>Hung\<close>).
\<close>

datatype render_result = RenderOk | RenderFailed string | Crashed string | Hung

definition apply_effect :: "file_effect \<Rightarrow> path \<Rightarrow> filesys \<Rightarrow> filesys" where
  "apply_effect eff p fs = (case eff of Untouched \<Rightarrow> fs | Left b \<Rightarrow> fs(p \<mapsto> b))"

definition encoder_writes :: "path \<Rightarrow> encoder_end \<Rightarrow> filesys \<Rightarrow> filesys" where
  "encoder_writes target e fs =
     (case e of
        SpawnError msg \<Rightarrow> fs
      | Closed code err eff \<Rightarrow> apply_effect eff target fs
      | InputError txt eff \<Rightarrow> apply_effect eff target fs)"

text \<open>\<open>s.slice(-n)\<close>: the last \<open>n\<close> characters.\<close>

definition slice_last :: "nat \<Rightarrow> string \<Rightarrow> string" where
  "slice_last n s = drop (length s - n) s"

definition code_str :: "int option \<Rightarrow> string" where
  "code_str code = (case code of None \<Rightarrow> ''null'' | Some c \<Rightarrow> int_str c)"

text \<open>
  \<open>await ffmpegDone\<close>: the promise resolves (exit code 0), or it rejects with an error whose
  message is given, or the process is ended before by an uncaught error. \<open>pre\<close> and \<open>n\<close> are
  the message prefix and the length of the stderr tail: \<open>ffmpeg exited with code\<close> and 500
  in v1 and v2, \<open>ffmpeg:\<close> and 300 in v4.
\<close>

datatype awaited = Resolved | Rejected string | Uncaught string

definition ffmpegDone :: "string \<Rightarrow> nat \<Rightarrow> encoder_end \<Rightarrow> awaited" where
  "ffmpegDone pre n e =
     (case e of
        SpawnError msg \<Rightarrow> Rejected msg
      | Closed code err eff \<Rightarrow>
          if code = Some 0 then Resolved
          else Rejected (pre @ code_str code @ [CHR 0x0A] @ slice_last n err)
      | InputError txt eff \<Rightarrow> Uncaught txt)"

text \<open>\<open>outputPath.replace(/\.mp4$/, r)\<close>: only a path that ends in \<open>.mp4\<close> changes.\<close>

definition ends_with :: "string \<Rightarrow> string \<Rightarrow> bool" where
  "ends_with suf s = (length suf \<le> length s \<and> drop (length s - length suf) s = suf)"

definition replace_mp4 :: "string \<Rightarrow> path \<Rightarrow> path" where
  "replace_mp4 r p = (if ends_with ''.mp4'' p then take (length p - 4) p @ r else p)"

definition silentPath :: "path \<Rightarrow> path" where
  "silentPath outputPath = replace_mp4 ''_silent.mp4'' outputPath"

definition audioPath :: "path \<Rightarrow> path" where
  "audioPath outputPath = replace_mp4 ''.wav'' outputPath"

text \<open>\<open>fs.statSync(outputPath)\<close> at the end of main throws when the file is missing.\<close>

definition stat_check :: "path \<Rightarrow> filesys \<Rightarrow> render_result" where
  "stat_check p fs =
     (if fs p = None
      then RenderFailed (''ENOENT: no such file or directory, stat '' @ [CHR 0x27] @ p @ [CHR 0x27])
      else RenderOk)"

text \<open>\<open>fs.renameSync(a, b)\<close>: \<open>None\<close> when it throws because \<open>a\<close> is missing.\<close>

definition renameSync :: "path \<Rightarrow> path \<Rightarrow> filesys \<Rightarrow> filesys option" where
  "renameSync a b fs =
     (case fs a of None \<Rightarrow> None
      | Some v \<Rightarrow> Some (if a = b then fs else (fs(a := None))(b \<mapsto> v)))"

text \<open>The catch block: \<open>if (fs.existsSync(silentPath)) fs.renameSync(silentPath, outputPath)\<close>.\<close>

definition fallback_rename :: "path \<Rightarrow> path \<Rightarrow> filesys \<Rightarrow> filesys" where
  "fallback_rename silent out fs =
     (if fs silent \<noteq> None
      then (case renameSync silent out fs of Some fs' \<Rightarrow> fs' | None \<Rightarrow> fs)
      else fs)"

text \<open>The merge that succeeded wrote the output; \<open>try { fs.unlinkSync(silentPath) } catch\<close>.\<close>

definition merged_cleanup :: "path \<Rightarrow> path \<Rightarrow> bytes \<Rightarrow> filesys \<Rightarrow> filesys" where
  "merged_cleanup silent out m fs = (fs(out \<mapsto> m))(silent := None)"

text \<open>
  v1, from \<open>ffmpeg.stdin.end()\<close> on, that is, once the frame loop has run to its end.
  ffmpeg is told to write \<open>outputPath\<close> itself.
\<close>

definition v1_finish :: "path \<Rightarrow> encoder_end \<Rightarrow> filesys \<Rightarrow> filesys \<times> render_result" where
  "v1_finish outputPath e fs =
     (let fs1 = encoder_writes outputPath e fs
      in case ffmpegDone ''ffmpeg exited with code '' 500 e of
           Rejected msg \<Rightarrow> (fs1, RenderFailed msg)
         | Uncaught txt \<Rightarrow> (fs1, Crashed txt)
         | Resolved \<Rightarrow> (fs1, stat_check outputPath fs1))"

text \<open>
  v2, once the frame loop has run to its end: ffmpeg writes \<open>silentPath\<close>; then, inside one
  try block, the sonifier runs, its wav file is looked for and the merge runs; without a wav
  file the silent video is renamed, and the catch block renames it as well.
\<close>

definition v2_audio :: "path \<Rightarrow> sonify_end \<Rightarrow> merge_end \<Rightarrow> filesys \<Rightarrow> filesys" where
  "v2_audio outputPath son mrg fs =
     (let silent = silentPath outputPath
      in case son of
           SonifyThrew \<Rightarrow> fallback_rename silent outputPath fs
         | NoWav \<Rightarrow> (case renameSync silent outputPath fs of
                       Some fs' \<Rightarrow> fs'
                     | None \<Rightarrow> fallback_rename silent outputPath fs)
         | WavFound \<Rightarrow> (case mrg of
                          Merged m \<Rightarrow> merged_cleanup silent outputPath m fs
                        | MergeThrew eff \<Rightarrow>
                            fallback_rename silent outputPath (apply_effect eff outputPath fs)))"

definition v2_finish ::
  "path \<Rightarrow> encoder_end \<Rightarrow> sonify_end \<Rightarrow> merge_end \<Rightarrow> filesys \<Rightarrow> filesys \<times> render_result" where
  "v2_finish outputPath e son mrg fs =
     (let fs1 = encoder_writes (silentPath outputPath) e fs
      in case ffmpegDone ''ffmpeg exited with code '' 500 e of
           Rejected msg \<Rightarrow> (fs1, RenderFailed msg)
         | Uncaught txt \<Rightarrow> (fs1, Crashed txt)
         | Resolved \<Rightarrow> (let fs2 = v2_audio outputPath son mrg fs1
                        in (fs2, stat_check outputPath fs2)))"

text \<open>
  v4 with a frame loop that runs to its end: \<open>generateAudio\<close> writes the wav file before
  ffmpeg is spawned, outside any try block; ffmpeg writes \<open>silentPath\<close>; the merge is inside
  a try block whose catch renames the silent video. The optional img2sound pass that
  follows only reads the output file and is left out.
\<close>

definition v4_merge :: "path \<Rightarrow> merge_end \<Rightarrow> filesys \<Rightarrow> filesys" where
  "v4_merge outputPath mrg fs =
     (let silent = silentPath outputPath
      in case mrg of
           Merged m \<Rightarrow> merged_cleanup silent outputPath m fs
         | MergeThrew eff \<Rightarrow> fallback_rename silent outputPath (apply_effect eff outputPath fs))"

definition v4_finish ::
  "path \<Rightarrow> audio_gen \<Rightarrow> encoder_end \<Rightarrow> merge_end \<Rightarrow> filesys \<Rightarrow> filesys \<times> render_result" where
  "v4_finish outputPath aud e mrg fs =
     (case aud of
        AudioThrew msg \<Rightarrow> (fs, RenderFailed msg)
      | AudioWritten wav \<Rightarrow>
          (let fs0 = fs(audioPath outputPath \<mapsto> wav);
               fs1 = encoder_writes (silentPath outputPath) e fs0
           in case ffmpegDone ''ffmpeg: '' 300 e of
                Rejected msg \<Rightarrow> (fs1, RenderFailed msg)
              | Uncaught txt \<Rightarrow> (fs1, Crashed txt)
              | Resolved \<Rightarrow> (let fs2 = v4_merge outputPath mrg fs1
                             in (fs2, stat_check outputPath fs2))))"

text \<open>
  The whole of main, from the spawn of ffmpeg on. When the frame loop does not get to its
  end, nothing after it runs: the process has ended with the uncaught stream error, or it
  waits for a drain for ever; what ffmpeg has left at its path stays there.
\<close>

definition interrupted :: "'f outcome \<Rightarrow> render_result option" where
  "interrupted r =
     (case r of Done s \<Rightarrow> None | Stalled s \<Rightarrow> Some Hung | Broke s txt \<Rightarrow> Some (Crashed txt))"

definition v1_render ::
  "(nat \<Rightarrow> write_answer) \<Rightarrow> (int \<Rightarrow> 'f) \<Rightarrow> int \<Rightarrow> path \<Rightarrow> encoder_end \<Rightarrow> filesys
     \<Rightarrow> filesys \<times> render_result" where
  "v1_render ans render totalFrames outputPath e fs =
     (case interrupted (frame_loop ans render totalFrames 0 new_stream) of
        Some r \<Rightarrow> (encoder_writes outputPath e fs, r)
      | None \<Rightarrow> v1_finish outputPath e fs)"

definition v2_render ::
  "(nat \<Rightarrow> write_answer) \<Rightarrow> (int \<Rightarrow> 'f) \<Rightarrow> int \<Rightarrow> path \<Rightarrow> encoder_end \<Rightarrow> sonify_end \<Rightarrow> merge_end
     \<Rightarrow> filesys \<Rightarrow> filesys \<times> render_result" where
  "v2_render ans render totalFrames outputPath e son mrg fs =
     (case interrupted (frame_loop ans render totalFrames 0 new_stream) of
        Some r \<Rightarrow> (encoder_writes (silentPath outputPath) e fs, r)
      | None \<Rightarrow> v2_finish outputPath e son mrg fs)"

definition v4_render ::
  "(nat \<Rightarrow> write_answer) \<Rightarrow> (int \<Rightarrow> 'f) \<Rightarrow> int \<Rightarrow> path \<Rightarrow> audio_gen \<Rightarrow> encoder_end \<Rightarrow> merge_end
     \<Rightarrow> filesys \<Rightarrow> filesys \<times> render_result" where
  "v4_render ans render totalFrames outputPath aud e mrg fs =
     (case aud of
        AudioThrew msg \<Rightarrow> (fs, RenderFailed msg)
      | AudioWritten wav \<Rightarrow>
          (case interrupted (frame_loop ans render totalFrames 0 new_stream) of
             Some r \<Rightarrow> (encoder_writes (silentPath outputPath) e (fs(audioPath outputPath \<mapsto> wav)), r)
           | None \<Rightarrow> v4_finish outputPath aud e mrg fs))"

section \<open>Properties of the cookie analyzer\<close>

lemma js_round_mono: "x \<le> y \<Longrightarrow> js_round x \<le> js_round y"
  by (simp add: js_round_def floor_mono)

lemma js_round_of_int: "js_round (of_int k) = k"
  by (simp add: js_round_def)

text \<open>The double arithmetic at work: 23 of 40 is 57 percent, 12 of 40 is 30, 1 of 3 is 33.\<close>

lemma js_percent_23_40: "js_percent 23 40 = 57"
  by (simp add: js_percent_def round_quot_def dbl_times_def math_round_def Let_def)

lemma js_percent_12_40: "js_percent 12 40 = 30"
  by (simp add: js_percent_def round_quot_def dbl_times_def math_round_def Let_def)

lemma js_percent_1_3: "js_percent 1 3 = 33"
  by (simp add: js_percent_def round_quot_def dbl_times_def math_round_def Let_def)

lemma classify_counts:
  "length (trackerCookies (classify gtc now st d c)) + length (firstParty (classify gtc now st d c))
     = Suc (length (trackerCookies st) + length (firstParty st))"
  by (simp add: classify_def Let_def split: option.splits)

lemma analyze_step_Inr:
  assumes "analyze_step gtc now st c = Inr st'"
  shows "strip_dot (domain c) \<notin> set object_prototype_keys"
    and "length (trackerCookies st') + length (firstParty st')
           = Suc (length (trackerCookies st) + length (firstParty st))"
  using assms classify_counts [of gtc now _ "strip_dot (domain c)" c]
  by (auto simp: analyze_step_def push_domain_def Let_def split: if_splits)

lemma analyze_step_throws:
  "strip_dot (domain c) \<in> set object_prototype_keys \<Longrightarrow>
     analyze_step gtc now st c = Inl (TypeError ''byDomain[domain].push is not a function'')"
  by (simp add: analyze_step_def push_domain_def Let_def)

lemma analyze_step_returns:
  "strip_dot (domain c) \<notin> set object_prototype_keys \<Longrightarrow> \<exists>st'. analyze_step gtc now st c = Inr st'"
  by (simp add: analyze_step_def push_domain_def Let_def)

lemma analyze_loop_counts:
  "analyze_loop gtc now st cs = Inr st' \<Longrightarrow>
     length (trackerCookies st') + length (firstParty st')
       = length (trackerCookies st) + length (firstParty st) + length cs"
proof (induction cs arbitrary: st)
  case Nil
  then show ?case by simp
next
  case (Cons c cs)
  from Cons.prems obtain st1 where s1: "analyze_step gtc now st c = Inr st1"
    and rest: "analyze_loop gtc now st1 cs = Inr st'"
    by (auto split: sum.splits)
  from Cons.IH [OF rest] analyze_step_Inr(2) [OF s1] show ?case by simp
qed

lemma analyze_loop_throws:
  assumes "\<exists>c \<in> set cs. strip_dot (domain c) \<in> set object_prototype_keys"
  shows "analyze_loop gtc now st cs = Inl (TypeError ''byDomain[domain].push is not a function'')"
  using assms
proof (induction cs arbitrary: st)
  case Nil
  then show ?case by simp
next
  case (Cons c cs)
  show ?case
  proof (cases "strip_dot (domain c) \<in> set object_prototype_keys")
    case True
    then show ?thesis by (simp add: analyze_step_throws)
  next
    case False
    then obtain st1 where s1: "analyze_step gtc now st c = Inr st1"
      using analyze_step_returns by blast
    from False Cons.prems have "\<exists>c \<in> set cs. strip_dot (domain c) \<in> set object_prototype_keys"
      by auto
    from Cons.IH [OF this] show ?thesis by (simp add: s1)
  qed
qed

lemma analyze_loop_returns:
  assumes "\<forall>c \<in> set cs. strip_dot (domain c) \<notin> set object_prototype_keys"
  shows "\<exists>st'. analyze_loop gtc now st cs = Inr st'"
  using assms
proof (induction cs arbitrary: st)
  case Nil
  show ?case by simp
next
  case (Cons c cs)
  from Cons.prems obtain st1 where s1: "analyze_step gtc now st c = Inr st1"
    using analyze_step_returns [of c gtc now st] by auto
  from Cons.prems have "\<forall>c \<in> set cs. strip_dot (domain c) \<notin> set object_prototype_keys" by simp
  from Cons.IH [OF this, of st1] show ?case by (simp add: s1)
qed

text \<open>
  On a list without such a domain name \<open>analyze\<close> returns a report: \<open>total\<close> is the length
  of the list, \<open>trackerCount\<close> does not exceed it, and \<open>trackerPercentage\<close> is 0 for the
  empty list and \<open>Math.round((trackerCount / total) * 100)\<close> otherwise.
\<close>

lemma analyze_report:
  assumes "analyze gtc now cs = Inr r"
  shows "total r = length cs" and "trackerCount r \<le> total r"
    and "trackerPercentage r = (if total r = 0 then 0 else js_percent (trackerCount r) (total r))"
proof -
  from assms obtain st where st: "analyze_loop gtc now analyze_init cs = Inr st"
    and r: "r = \<lparr>total = length cs,
                  trackerCount = length (trackerCookies st),
                  firstPartyCount = length (firstParty st),
                  thirdPartyCount = length (thirdParty st),
                  uniqueDomains = length (byDomain st),
                  rep_byCategory = byCategory st,
                  rep_lifetimes = lifetimes_of st,
                  topTrackers = take 20 (sort_key (\<lambda>t. - int (ti_count t))
                                   (js_entries (trackerDomains [] (trackerCookies st)))),
                  trackerPercentage =
                    (if length cs > 0 then js_percent (length (trackerCookies st)) (length cs) else 0),
                  summary = generateCookieSummary (length cs) (length (trackerCookies st))
                              (lifetimes_of st) (byCategory st)\<rparr>"
    by (auto simp: analyze_def Let_def split: sum.splits)
  show "total r = length cs" by (simp add: r)
  from analyze_loop_counts [OF st] show "trackerCount r \<le> total r"
    by (simp add: r analyze_init_def)
  show "trackerPercentage r = (if total r = 0 then 0 else js_percent (trackerCount r) (total r))"
    by (simp add: r)
qed

lemma analyze_returns:
  assumes "\<forall>c \<in> set cs. strip_dot (domain c) \<notin> set object_prototype_keys"
  shows "\<exists>r. analyze gtc now cs = Inr r"
proof -
  from analyze_loop_returns [OF assms] obtain st where "analyze_loop gtc now analyze_init cs = Inr st"
    by blast
  then show ?thesis by (simp add: analyze_def Let_def)
qed

lemma analyze_throws:
  assumes "\<exists>c \<in> set cs. strip_dot (domain c) \<in> set object_prototype_keys"
  shows "analyze gtc now cs = Inl (TypeError ''byDomain[domain].push is not a function'')"
  by (simp add: analyze_def Let_def analyze_loop_throws [OF assms])

text \<open>
  C10. \<open>CookieAnalyzer.analyze\<close> is not total: on a cookie whose domain is \<open>constructor\<close>
  (with or without the leading dot) it throws a TypeError, whatever the tracker table and
  the clock, also after cookies it has handled well. On the empty list it returns the
  report with \<open>total = 0\<close> and \<open>trackerPercentage = 0\<close>.
\<close>

theorem analyze_throws_on_prototype_domain:
  "analyze gtc now [\<lparr>domain = ''constructor'', session = True, expirationDate = None\<rparr>]
     = Inl (TypeError ''byDomain[domain].push is not a function'')
   \<and> analyze gtc now [\<lparr>domain = ''.example.com'', session = False, expirationDate = Some 1\<rparr>,
                       \<lparr>domain = ''.constructor'', session = True, expirationDate = None\<rparr>]
     = Inl (TypeError ''byDomain[domain].push is not a function'')
   \<and> (\<exists>r. analyze gtc now [] = Inr r \<and> total r = 0 \<and> trackerCount r = 0 \<and> trackerPercentage r = 0)"
proof (intro conjI)
  show "analyze gtc now [\<lparr>domain = ''constructor'', session = True, expirationDate = None\<rparr>]
     = Inl (TypeError ''byDomain[domain].push is not a function'')"
    by (rule analyze_throws) (simp add: object_prototype_keys_def)
  show "analyze gtc now [\<lparr>domain = ''.example.com'', session = False, expirationDate = Some 1\<rparr>,
                       \<lparr>domain = ''.constructor'', session = True, expirationDate = None\<rparr>]
     = Inl (TypeError ''byDomain[domain].push is not a function'')"
    by (rule analyze_throws) (simp add: object_prototype_keys_def)
  show "\<exists>r. analyze gtc now [] = Inr r \<and> total r = 0 \<and> trackerCount r = 0 \<and> trackerPercentage r = 0"
    by (simp add: analyze_def Let_def analyze_init_def)
qed

section \<open>Properties of the cookie section of buildMonolog\<close>

lemma cookie_breakdown_ext: "prefix raw (cookie_breakdown raw c)"
  by (simp add: cookie_breakdown_def add_def Let_def)

lemma cookie_top_ext: "prefix raw (cookie_top raw c)"
  by (simp add: cookie_top_def add_def Let_def)

lemma cookie_zombies_ext: "prefix raw (cookie_zombies raw c)"
  by (simp add: cookie_zombies_def add_def Let_def)

lemma cookie_social_ext: "prefix raw (cookie_social raw c)"
  by (simp add: cookie_social_def add_def Let_def)

lemma cookie_brokers_ext: "prefix raw (cookie_brokers raw c)"
  by (simp add: cookie_brokers_def add_def Let_def)

lemma cookieSection_ext:
  assumes "cj_total c > 0"
  shows "prefix (cookie_summary raw c) (cookieSection raw (Some c))"
proof -
  define r2 where "r2 = add (cookie_summary raw c) [''subject agreed to this.'',
     ''somewhere in a terms of service.'', ''subject didn't read it.''] ''linger''"
  define r3 where "r3 = cookie_breakdown r2 c"
  define r4 where "r4 = cookie_top r3 c"
  define r5 where "r5 = cookie_zombies r4 c"
  define r6 where "r6 = cookie_social r5 c"
  have e: "cookieSection raw (Some c) = cookie_brokers r6 c"
    using assms by (simp add: cookieSection_def Let_def r2_def r3_def r4_def r5_def r6_def)
  have "prefix (cookie_summary raw c) r2" by (simp add: r2_def add_def)
  also have "prefix r2 r3" unfolding r3_def by (rule cookie_breakdown_ext)
  also have "prefix r3 r4" unfolding r4_def by (rule cookie_top_ext)
  also have "prefix r4 r5" unfolding r5_def by (rule cookie_zombies_ext)
  also have "prefix r5 r6" unfolding r6_def by (rule cookie_social_ext)
  also have "prefix r6 (cookie_brokers r6 c)" by (rule cookie_brokers_ext)
  finally show ?thesis by (simp only: e)
qed

lemma cookieSection_summary_block:
  assumes "cj_total c > 0"
  shows "length raw < length (cookieSection raw (Some c))
    \<and> cookieSection raw (Some c) ! length raw =
        \<lparr>rb_lines = [int_str (cj_total c) @ '' cookies found.'',
              int_str (cj_trackerCount c) @ '' belong to known trackers.'',
              int_str (js_round (surveillance_percent c)) @ ''% surveillance.''],
         importance = ''normal''\<rparr>"
proof -
  obtain ys where ys: "cookieSection raw (Some c) = cookie_summary raw c @ ys"
    using cookieSection_ext [OF assms] by (auto simp: prefix_def)
  have s: "cookie_summary raw c = raw @ [\<lparr>rb_lines = [int_str (cj_total c) @ '' cookies found.'',
              int_str (cj_trackerCount c) @ '' belong to known trackers.'',
              int_str (js_round (surveillance_percent c)) @ ''% surveillance.''],
         importance = ''normal''\<rparr>]"
    by (simp add: cookie_summary_def add_def)
  show ?thesis by (simp add: ys s nth_append)
qed

lemma surveillance_percent_40_12:
  assumes "cj_total c = 40" "cj_trackerCount c = 12"
    and "case cj_trackerPercentage c of None \<Rightarrow> True | Some p \<Rightarrow> p = 0 \<or> js_round p = 30"
  shows "js_round (surveillance_percent c) = 30"
  using assms by (auto simp: surveillance_percent_def js_round_def split: option.splits)

text \<open>
  C9 (amended). For a profile whose cookie data has \<open>total = 40\<close> and \<open>trackerCount = 12\<close>,
  and whose own \<open>trackerPercentage\<close> field is absent, zero or rounds to 30, the block builder
  emits (right after the blocks pushed before section 14) a cookie-summary block whose three
  lines are "40 cookies found.", "12 belong to known trackers." and "30% surveillance.".
  The record's \<open>trackerPercentage\<close> takes precedence over \<open>trackerCount / total * 100\<close>
  whenever it is present and non-zero.
\<close>

theorem cookie_summary_40_12:
  assumes "cj_total c = 40" and "cj_trackerCount c = 12"
    and "case cj_trackerPercentage c of None \<Rightarrow> True | Some p \<Rightarrow> p = 0 \<or> js_round p = 30"
  shows "length raw < length (cookieSection raw (Some c))
    \<and> cookieSection raw (Some c) ! length raw =
        \<lparr>rb_lines = [''40 cookies found.'', ''12 belong to known trackers.'', ''30% surveillance.''],
         importance = ''normal''\<rparr>"
proof -
  have pos: "cj_total c > 0" using assms(1) by simp
  have p: "js_round (surveillance_percent c) = 30" by (rule surveillance_percent_40_12 [OF assms])
  have s40: "int_str 40 = ''40''" by (simp add: int_str_def)
  have s12: "int_str 12 = ''12''" by (simp add: int_str_def)
  have s30: "int_str 30 = ''30''" by (simp add: int_str_def)
  show ?thesis
    using cookieSection_summary_block [OF pos, of raw]
    by (simp add: assms(1,2) p s40 s12 s30)
qed

theorem cookie_summary_40_12_witness:
  "cookieSection [] (Some \<lparr>cj_total = 40, cj_trackerCount = 12, cj_trackerPercentage = None,
       cj_byCategory = Map.empty, cj_topTrackers = [], cj_zombie = None\<rparr>) ! 0 =
     \<lparr>rb_lines = [''40 cookies found.'', ''12 belong to known trackers.'', ''30% surveillance.''],
      importance = ''normal''\<rparr>"
  using cookie_summary_40_12 [of "\<lparr>cj_total = 40, cj_trackerCount = 12, cj_trackerPercentage = None,
       cj_byCategory = Map.empty, cj_topTrackers = [], cj_zombie = None\<rparr>" "[]"]
  by simp

text \<open>
  Without that condition the property fails: for a record that carries
  \<open>trackerPercentage = 55\<close> next to \<open>total = 40\<close> and \<open>trackerCount = 12\<close>, the third
  line reads "55% surveillance.".
\<close>

theorem cookie_summary_40_12_counterexample:
  "cookieSection [] (Some \<lparr>cj_total = 40, cj_trackerCount = 12, cj_trackerPercentage = Some 55,
       cj_byCategory = Map.empty, cj_topTrackers = [], cj_zombie = None\<rparr>) ! 0 =
     \<lparr>rb_lines = [''40 cookies found.'', ''12 belong to known trackers.'', ''55% surveillance.''],
      importance = ''normal''\<rparr>
   \<and> rb_lines (cookieSection [] (Some \<lparr>cj_total = 40, cj_trackerCount = 12, cj_trackerPercentage = Some 55,
       cj_byCategory = Map.empty, cj_topTrackers = [], cj_zombie = None\<rparr>) ! 0)
      \<noteq> [''40 cookies found.'', ''12 belong to known trackers.'', ''30% surveillance.'']"
  by (simp add: cookieSection_def cookie_summary_def add_def surveillance_percent_def
     js_round_def int_str_def Let_def cookie_breakdown_def cookie_top_def cookie_zombies_def
     cookie_social_def cookie_brokers_def category_count_def)

text \<open>
  A report produced by \<open>CookieAnalyzer.analyze\<close> is always consistent in this sense.
\<close>

lemma analyzer_report_consistent:
  assumes "analyze gtc now cs = Inr r" and "total r = 40" and "trackerCount r = 12"
  shows "cookieSection raw (Some (report_json r)) ! length raw =
        \<lparr>rb_lines = [''40 cookies found.'', ''12 belong to known trackers.'', ''30% surveillance.''],
         importance = ''normal''\<rparr>"
proof -
  let ?c = "report_json r"
  have t: "cj_total ?c = 40" using assms(2) by (simp add: report_json_def)
  have k: "cj_trackerCount ?c = 12" using assms(3) by (simp add: report_json_def)
  have pos: "cj_total ?c > 0" using t by simp
  have tp: "trackerPercentage r = 30"
    using analyze_report(3) [OF assms(1)] assms(2,3) by (simp add: js_percent_12_40)
  have "cj_trackerPercentage ?c = Some 30" using tp by (simp add: report_json_def)
  then have p: "js_round (surveillance_percent ?c) = 30"
    by (simp add: surveillance_percent_def js_round_def)
  have s40: "int_str 40 = ''40''" by (simp add: int_str_def)
  have s12: "int_str 12 = ''12''" by (simp add: int_str_def)
  have s30: "int_str 30 = ''30''" by (simp add: int_str_def)
  show ?thesis
    using cookieSection_summary_block [OF pos, of raw]
    by (simp add: t k p s40 s12 s30)
qed

section \<open>Properties of the frame timing loop\<close>

lemma timing_loop_acc:
  "timing_loop bb bs (tf, bts) =
     (tf + sum_list (map (spec_duration bb) bs), bts @ spec_timings bb tf bs)"
proof (induction bs arbitrary: tf bts)
  case Nil
  show ?case by simp
next
  case (Cons b bs)
  show ?case
    by (simp add: Let_def Cons.IH spec_duration_def add.assoc)
qed

lemma frame_timing_eq:
  "frame_timing bb bs = (sum_list (map (spec_duration bb) bs) + 30, spec_timings bb 0 bs)"
  by (simp add: frame_timing_def timing_loop_acc)

lemma length_spec_timings: "length (spec_timings bb t0 bs) = length bs"
  by (induction bs arbitrary: t0) simp_all

lemma spec_timings_nth:
  "i < length bs \<Longrightarrow>
     spec_timings bb t0 bs ! i =
       \<lparr>start = t0 + sum_list (map (spec_duration bb) (take i bs)),
        duration = spec_duration bb (bs ! i),
        linesFrames = int (length (rb_lines (bs ! i))) * LINE_GAP + LINE_FADE,
        holdFrames = js_round (holdSec (bs ! i) * real_of_int FPS)\<rparr>"
proof (induction bs arbitrary: t0 i)
  case Nil
  then show ?case by simp
next
  case (Cons b bs)
  show ?case
  proof (cases i)
    case 0
    then show ?thesis by simp
  next
    case (Suc j)
    with Cons.prems have "j < length bs" by simp
    from Cons.IH [OF this, of "t0 + spec_duration bb b"] Suc show ?thesis by (simp add: add.assoc)
  qed
qed

lemma sum_durations_take_mono:
  assumes "\<forall>b\<in>set bs. 0 \<le> spec_duration bb b" and "i \<le> j"
  shows "sum_list (map (spec_duration bb) (take i bs)) \<le> sum_list (map (spec_duration bb) (take j bs))"
proof -
  have "take j bs = take i bs @ take (j - i) (drop i bs)"
    using assms(2) by (metis le_add_diff_inverse take_add)
  moreover have "0 \<le> sum_list (map (spec_duration bb) (take (j - i) (drop i bs)))"
    by (rule sum_list_nonneg) (use assms(1) in \<open>auto dest!: in_set_takeD in_set_dropD\<close>)
  ultimately show ?thesis by simp
qed

lemma sum_durations_take_Suc:
  "i < length bs \<Longrightarrow> sum_list (map (spec_duration bb) (take (Suc i) bs))
     = sum_list (map (spec_duration bb) (take i bs)) + spec_duration bb (bs ! i)"
  by (simp add: take_Suc_conv_app_nth)

lemma covering_index_exists:
  assumes "\<forall>b\<in>set bs. 0 \<le> spec_duration bb b"
    and "0 \<le> f" and "f < sum_list (map (spec_duration bb) bs)"
  shows "\<exists>i. i < length bs \<and> sum_list (map (spec_duration bb) (take i bs)) \<le> f
            \<and> f < sum_list (map (spec_duration bb) (take (Suc i) bs))"
  using assms
proof (induction bs rule: rev_induct)
  case Nil
  then show ?case by simp
next
  case (snoc b bs)
  show ?case
  proof (cases "f < sum_list (map (spec_duration bb) bs)")
    case True
    from snoc.prems(1) have "\<forall>b\<in>set bs. 0 \<le> spec_duration bb b" by simp
    from snoc.IH [OF this snoc.prems(2) True]
    obtain i where i: "i < length bs" "sum_list (map (spec_duration bb) (take i bs)) \<le> f"
      "f < sum_list (map (spec_duration bb) (take (Suc i) bs))" by blast
    then show ?thesis by (intro exI [of _ i]) (simp add: Suc_le_eq)
  next
    case False
    then show ?thesis using snoc.prems(3) by (intro exI [of _ "length bs"]) simp
  qed
qed

lemma js_round_nonneg: "0 \<le> x \<Longrightarrow> 0 \<le> js_round x"
  by (simp add: js_round_def)

lemma spec_duration_pos:
  assumes "0 \<le> bb" and "0 \<le> holdSec b"
  shows "LINE_FADE + FADE_OUT + bb \<le> spec_duration bb b" and "0 < spec_duration bb b"
proof -
  have "0 \<le> holdSec b * real_of_int FPS" using assms(2) by (simp add: FPS_def)
  then have "0 \<le> js_round (holdSec b * real_of_int FPS)" by (rule js_round_nonneg)
  then show "LINE_FADE + FADE_OUT + bb \<le> spec_duration bb b"
    by (simp add: spec_duration_def LINE_GAP_def)
  then show "0 < spec_duration bb b" using assms(1) by (simp add: LINE_FADE_def FADE_OUT_def)
qed

lemma in_block_iff: "in_block bt gf \<longleftrightarrow> start bt \<le> gf \<and> gf < start bt + duration bt"
  by (auto simp: in_block_def Let_def)

lemma in_block_spec_timings:
  assumes "i < length bs"
  shows "in_block (spec_timings bb 0 bs ! i) f \<longleftrightarrow>
     sum_list (map (spec_duration bb) (take i bs)) \<le> f
     \<and> f < sum_list (map (spec_duration bb) (take (Suc i) bs))"
  by (simp add: in_block_iff spec_timings_nth [OF assms] sum_durations_take_Suc [OF assms])

lemma in_block_unique:
  assumes nn: "\<forall>b\<in>set bs. 0 \<le> spec_duration bb b"
    and i: "i < length bs" "in_block (spec_timings bb 0 bs ! i) f"
    and j: "j < length bs" "in_block (spec_timings bb 0 bs ! j) f"
  shows "i = j"
proof (rule ccontr)
  assume ne: "i \<noteq> j"
  have *: False if lt: "a < b" and a: "a < length bs" "in_block (spec_timings bb 0 bs ! a) f"
    and b: "b < length bs" "in_block (spec_timings bb 0 bs ! b) f" for a b
  proof -
    have "f < sum_list (map (spec_duration bb) (take (Suc a) bs))"
      using a by (simp add: in_block_spec_timings)
    also have "\<dots> \<le> sum_list (map (spec_duration bb) (take b bs))"
      by (rule sum_durations_take_mono [OF nn]) (use lt in simp)
    also have "\<dots> \<le> f" using b by (simp add: in_block_spec_timings)
    finally show False by simp
  qed
  from ne have "i < j \<or> j < i" by arith
  then show False using * i j by blast
qed

lemma sum_list_map_duration_spec:
  "sum_list (map duration (spec_timings bb t0 bs)) = sum_list (map (spec_duration bb) bs)"
  by (induction bs arbitrary: t0) simp_all

text \<open>
  C3. The timing loop gives every block the duration
  \<open>lines.length * LINE_GAP + LINE_FADE + round(hold * FPS) + FADE_OUT + BLOCK_BLACK\<close>, one
  timing per block in order; a block with no lines (and a hold time that is not negative)
  still lasts at least \<open>LINE_FADE + FADE_OUT + BLOCK_BLACK\<close> frames.
\<close>

theorem block_duration_formula:
  "length (snd (frame_timing bb blocks)) = length blocks
   \<and> (\<forall>i. i < length blocks \<longrightarrow>
         duration (snd (frame_timing bb blocks) ! i) =
           int (length (rb_lines (blocks ! i))) * LINE_GAP + LINE_FADE
             + js_round (holdSec (blocks ! i) * real_of_int FPS) + FADE_OUT + bb
       \<and> (rb_lines (blocks ! i) = [] \<and> 0 \<le> holdSec (blocks ! i) \<longrightarrow>
             LINE_FADE + FADE_OUT + bb \<le> duration (snd (frame_timing bb blocks) ! i)))"
proof -
  have bts: "snd (frame_timing bb blocks) = spec_timings bb 0 blocks"
    by (simp add: frame_timing_eq)
  have d: "duration (spec_timings bb 0 blocks ! i) = spec_duration bb (blocks ! i)"
    if "i < length blocks" for i
    using spec_timings_nth [OF that] by simp
  have z: "LINE_FADE + FADE_OUT + bb \<le> spec_duration bb b"
    if "rb_lines b = []" "0 \<le> holdSec b" for b
  proof -
    have "0 \<le> holdSec b * real_of_int FPS" using that(2) by (simp add: FPS_def)
    then have "0 \<le> js_round (holdSec b * real_of_int FPS)" by (rule js_round_nonneg)
    then show ?thesis using that(1) by (simp add: spec_duration_def)
  qed
  show ?thesis
    unfolding bts using d z by (auto simp: length_spec_timings spec_duration_def)
qed

theorem block_duration_formula_witness:
  "duration (snd (frame_timing 12
      [\<lparr>rb_lines = [], importance = ''normal'', holdSec = 0\<rparr>,
       \<lparr>rb_lines = [''scanning.''], importance = ''normal'', holdSec = 6 / 5\<rparr>]) ! 0) = 30
   \<and> duration (snd (frame_timing 12
      [\<lparr>rb_lines = [], importance = ''normal'', holdSec = 0\<rparr>,
       \<lparr>rb_lines = [''scanning.''], importance = ''normal'', holdSec = 6 / 5\<rparr>]) ! 1) = 72"
  using block_duration_formula [of 12
      "[\<lparr>rb_lines = [], importance = ''normal'', holdSec = 0\<rparr>,
       \<lparr>rb_lines = [''scanning.''], importance = ''normal'', holdSec = 6 / 5\<rparr>]"]
  by (simp add: LINE_GAP_def LINE_FADE_def FADE_OUT_def FPS_def js_round_def)

text \<open>
  C2 (amended). For blocks whose hold times are not negative, the intervals
  \<open>[start, start + duration)\<close> of the timing loop are non-empty and consecutive (the first
  starts at 0, each next one where the previous ends), \<open>totalFrames\<close> is the sum of the
  durations plus 30 frames of tail padding (there is no head padding), every frame of
  \<open>[0, totalFrames - 30)\<close> lies in exactly one block's interval, and the frames of the
  30-frame tail lie in none.
\<close>

theorem timeline_partition:
  assumes "0 \<le> bb" and "\<forall>b\<in>set blocks. 0 \<le> holdSec b"
  shows "length (snd (frame_timing bb blocks)) = length blocks
   \<and> fst (frame_timing bb blocks) = sum_list (map duration (snd (frame_timing bb blocks))) + 30
   \<and> (\<forall>i. i < length blocks \<longrightarrow> 0 < duration (snd (frame_timing bb blocks) ! i))
   \<and> (\<forall>i. i < length blocks \<longrightarrow>
         start (snd (frame_timing bb blocks) ! i) =
           sum_list (map duration (take i (snd (frame_timing bb blocks)))))
   \<and> (\<forall>i. Suc i < length blocks \<longrightarrow>
         start (snd (frame_timing bb blocks) ! Suc i) =
           start (snd (frame_timing bb blocks) ! i) + duration (snd (frame_timing bb blocks) ! i))
   \<and> (\<forall>f. 0 \<le> f \<and> f < fst (frame_timing bb blocks) - 30 \<longrightarrow>
         (\<exists>!i. i < length blocks \<and> in_block (snd (frame_timing bb blocks) ! i) f))
   \<and> (\<forall>f. f < 0 \<or> fst (frame_timing bb blocks) - 30 \<le> f \<longrightarrow>
         \<not> (\<exists>i. i < length blocks \<and> in_block (snd (frame_timing bb blocks) ! i) f))"
proof -
  let ?d = "spec_duration bb"
  have bts: "snd (frame_timing bb blocks) = spec_timings bb 0 blocks"
    and tf: "fst (frame_timing bb blocks) = sum_list (map ?d blocks) + 30"
    by (simp_all add: frame_timing_eq)
  have pos: "\<forall>b\<in>set blocks. 0 < ?d b"
    using spec_duration_pos(2) [OF assms(1)] assms(2) by blast
  then have nn: "\<forall>b\<in>set blocks. 0 \<le> ?d b" by force
  have c1: "length (spec_timings bb 0 blocks) = length blocks" by (rule length_spec_timings)
  have c2: "sum_list (map ?d blocks) + 30 = sum_list (map duration (spec_timings bb 0 blocks)) + 30"
    by (simp add: sum_list_map_duration_spec)
  have c3: "0 < duration (spec_timings bb 0 blocks ! i)" if "i < length blocks" for i
    using spec_timings_nth [OF that, of bb 0] pos that by simp
  have take_eq: "take i (spec_timings bb 0 blocks) = spec_timings bb 0 (take i blocks)" for i
  proof (induction blocks arbitrary: i rule: rev_induct)
    case Nil
    show ?case by simp
  next
    case (snoc b bs)
    have app: "spec_timings bb t0 (xs @ ys)
       = spec_timings bb t0 xs @ spec_timings bb (t0 + sum_list (map ?d xs)) ys" for t0 xs ys
      by (induction xs arbitrary: t0) (simp_all add: add.assoc)
    show ?case
      by (cases "i \<le> length bs") (simp_all add: app snoc.IH length_spec_timings)
  qed
  have c4: "start (spec_timings bb 0 blocks ! i)
      = sum_list (map duration (take i (spec_timings bb 0 blocks)))" if "i < length blocks" for i
    using spec_timings_nth [OF that, of bb 0]
    by (simp add: take_eq sum_list_map_duration_spec)
  have c5: "start (spec_timings bb 0 blocks ! Suc i)
      = start (spec_timings bb 0 blocks ! i) + duration (spec_timings bb 0 blocks ! i)"
    if "Suc i < length blocks" for i
  proof -
    from that have i: "i < length blocks" by simp
    show ?thesis
      using spec_timings_nth [OF that, of bb 0] spec_timings_nth [OF i, of bb 0]
      by (simp add: sum_durations_take_Suc [OF i])
  qed
  have c6: "\<exists>!i. i < length blocks \<and> in_block (spec_timings bb 0 blocks ! i) f"
    if "0 \<le> f \<and> f < sum_list (map ?d blocks)" for f
  proof -
    from covering_index_exists [OF nn] that
    obtain i where i: "i < length blocks" "sum_list (map ?d (take i blocks)) \<le> f"
      "f < sum_list (map ?d (take (Suc i) blocks))" by blast
    then have "in_block (spec_timings bb 0 blocks ! i) f" by (simp add: in_block_spec_timings)
    with i(1) show ?thesis using in_block_unique [OF nn] by blast
  qed
  have c7: "\<not> (\<exists>i. i < length blocks \<and> in_block (spec_timings bb 0 blocks ! i) f)"
    if "f < 0 \<or> sum_list (map ?d blocks) \<le> f" for f
  proof
    assume "\<exists>i. i < length blocks \<and> in_block (spec_timings bb 0 blocks ! i) f"
    then obtain i where i: "i < length blocks" "in_block (spec_timings bb 0 blocks ! i) f" by blast
    then have lo: "sum_list (map ?d (take i blocks)) \<le> f"
      and hi: "f < sum_list (map ?d (take (Suc i) blocks))"
      by (simp_all add: in_block_spec_timings)
    have "0 \<le> sum_list (map ?d (take i blocks))"
      by (rule sum_list_nonneg) (use nn in \<open>auto dest!: in_set_takeD\<close>)
    moreover have "sum_list (map ?d (take (Suc i) blocks)) \<le> sum_list (map ?d (take (length blocks) blocks))"
      by (rule sum_durations_take_mono [OF nn]) (use i(1) in simp)
    ultimately show False using lo hi that by simp
  qed
  show ?thesis
    unfolding bts tf using c1 c2 c3 c4 c5 c6 c7 by simp
qed

theorem timeline_partition_witness:
  "fst (frame_timing 12
      [\<lparr>rb_lines = [''scanning.''], importance = ''normal'', holdSec = 1\<rparr>,
       \<lparr>rb_lines = [''a'', ''b''], importance = ''linger'', holdSec = 1 / 2\<rparr>]) = 153
   \<and> start (snd (frame_timing 12
      [\<lparr>rb_lines = [''scanning.''], importance = ''normal'', holdSec = 1\<rparr>,
       \<lparr>rb_lines = [''a'', ''b''], importance = ''linger'', holdSec = 1 / 2\<rparr>]) ! 1) = 66
   \<and> (\<exists>!i. i < 2 \<and> in_block (snd (frame_timing 12
      [\<lparr>rb_lines = [''scanning.''], importance = ''normal'', holdSec = 1\<rparr>,
       \<lparr>rb_lines = [''a'', ''b''], importance = ''linger'', holdSec = 1 / 2\<rparr>]) ! i) 70)"
proof -
  let ?bs = "[\<lparr>rb_lines = [''scanning.''], importance = ''normal'', holdSec = 1\<rparr>,
       \<lparr>rb_lines = [''a'', ''b''], importance = ''linger'', holdSec = 1 / 2\<rparr>]"
  have h: "\<forall>b\<in>set ?bs. 0 \<le> holdSec b" by simp
  have tf: "fst (frame_timing 12 ?bs) = 153"
    by (simp add: frame_timing_def Let_def LINE_GAP_def LINE_FADE_def FADE_OUT_def FPS_def js_round_def)
  have st: "start (snd (frame_timing 12 ?bs) ! 1) = 66"
    by (simp add: frame_timing_def Let_def LINE_GAP_def LINE_FADE_def FADE_OUT_def FPS_def js_round_def)
  from timeline_partition [of 12 ?bs, OF _ h]
  have "\<forall>f. 0 \<le> f \<and> f < fst (frame_timing 12 ?bs) - 30 \<longrightarrow>
         (\<exists>!i. i < length ?bs \<and> in_block (snd (frame_timing 12 ?bs) ! i) f)"
    by simp
  then have "\<exists>!i. i < length ?bs \<and> in_block (snd (frame_timing 12 ?bs) ! i) 70"
    unfolding tf by simp
  then have "\<exists>!i. i < 2 \<and> in_block (snd (frame_timing 12 ?bs) ! i) 70"
    by (simp add: numeral_2_eq_2)
  with tf st show ?thesis by blast
qed

text \<open>
  Stated for all of \<open>[0, totalFrames)\<close> the property fails in the tail: with one block
  of 66 frames, \<open>totalFrames\<close> is 96 and frame 70 lies in no block's interval.
\<close>

theorem timeline_partition_counterexample:
  "fst (frame_timing 12 [\<lparr>rb_lines = [''scanning.''], importance = ''normal'', holdSec = 1\<rparr>]) = 96
   \<and> length (snd (frame_timing 12 [\<lparr>rb_lines = [''scanning.''], importance = ''normal'', holdSec = 1\<rparr>])) = 1
   \<and> \<not> in_block (snd (frame_timing 12 [\<lparr>rb_lines = [''scanning.''], importance = ''normal'', holdSec = 1\<rparr>]) ! 0) 70"
  by (simp add: frame_timing_def Let_def LINE_GAP_def LINE_FADE_def FADE_OUT_def FPS_def
      js_round_def in_block_def)

section \<open>Properties of the seeded generator and of scaredTiming\<close>

lemma lcg_inverse: "(16807::int) * 1407677000 = 1 + 11017 * 2147483647" by simp

lemma js_rem_pos: "0 \<le> a \<Longrightarrow> 0 < b \<Longrightarrow> js_rem a b = a mod b"
  by (cases "a = 0") (simp_all add: js_rem_def)

lemma lcg_step_range:
  assumes "0 < s" "s < 2147483647"
  shows "0 < js_rem (s * 16807) 2147483647 \<and> js_rem (s * 16807) 2147483647 < 2147483647"
proof -
  let ?M = "2147483647 :: int"
  have e: "js_rem (s * 16807) ?M = (s * 16807) mod ?M"
    using assms(1) by (intro js_rem_pos) simp_all
  have "(s * 16807) mod ?M \<noteq> 0"
  proof
    assume "(s * 16807) mod ?M = 0"
    then have "?M dvd s * 16807" by (simp add: dvd_eq_mod_eq_0)
    then have "?M dvd s * 16807 * 1407677000" by (rule dvd_mult2)
    moreover have "s * 16807 * 1407677000 = s + ?M * (s * 11017)" by (simp add: algebra_simps)
    ultimately have "?M dvd s + ?M * (s * 11017)" by (simp only:)
    then have "?M dvd s" by (simp only: dvd_add_left_iff [OF dvd_triv_left])
    then have "?M \<le> s" using assms(1) by (rule zdvd_imp_le)
    with assms(2) show False by simp
  qed
  moreover have "0 \<le> (s * 16807) mod ?M" "(s * 16807) mod ?M < ?M" by simp_all
  ultimately show ?thesis unfolding e by linarith
qed

lemma rng_range:
  assumes "0 < s" "s < 2147483647"
  shows "0 \<le> fst (rng s)" "fst (rng s) < 1" "0 < snd (rng s)" "snd (rng s) < 2147483647"
proof -
  from lcg_step_range [OF assms]
  have r: "0 < js_rem (s * 16807) 2147483647" "js_rem (s * 16807) 2147483647 < 2147483647"
    by simp_all
  show "0 < snd (rng s)" "snd (rng s) < 2147483647" using r by (simp_all add: rng_def Let_def)
  have "1 \<le> js_rem (s * 16807) 2147483647" using r(1) by simp
  then show "0 \<le> fst (rng s)" by (simp add: rng_def Let_def)
  have "real_of_int (js_rem (s * 16807) 2147483647 - 1) < 2147483646"
    using r(2) by linarith
  then show "fst (rng s) < 1" by (simp add: rng_def Let_def)
qed

lemma spec_jitter_range:
  assumes "0 < s" "s < 2147483647"
  shows "75 / 100 \<le> spec_jitter s" "spec_jitter s < 125 / 100"
  using rng_range(1,2) [OF assms] by (simp_all add: spec_jitter_def)

text \<open>
  C4 (amended). For block \<open>i\<close> of \<open>n\<close> with \<open>k\<close> lines and an importance tag,
  \<open>scaredTiming\<close> returns the larger of 0.25 and
  \<open>(0.3 + 0.22 * k) * curve(i / max(n, 1)) * impMult * jitter\<close>, where the curve is 1.3
  below 0.15, 0.75 below 0.5, 0.6 below 0.75 and \<open>1.1 + (progress - 0.75) * 4\<close> from there
  on, \<open>impMult\<close> is 0.35 for flash, 2.2 for linger and 1 otherwise, and
  \<open>jitter = 0.75 + rng() * 0.5\<close> comes from the seeded generator: it lies in
  \<open>[0.75, 1.25)\<close> whenever the generator state is in \<open>1 .. 2147483646\<close>, a range that one
  step of the generator preserves.
\<close>

theorem scaredTiming_model:
  "fst (scaredTiming i n k imp s) =
     max (25 / 100) ((3 / 10 + 22 / 100 * real k) * spec_curve (real i / real (max n 1))
                       * spec_impMult imp * spec_jitter s)
   \<and> snd (scaredTiming i n k imp s) = snd (rng s)
   \<and> 25 / 100 \<le> fst (scaredTiming i n k imp s)
   \<and> (25 / 100 \<le> (3 / 10 + 22 / 100 * real k) * spec_curve (real i / real (max n 1))
                       * spec_impMult imp * spec_jitter s \<longrightarrow>
        fst (scaredTiming i n k imp s) =
          (3 / 10 + 22 / 100 * real k) * spec_curve (real i / real (max n 1))
             * spec_impMult imp * spec_jitter s)
   \<and> (0 < s \<and> s < 2147483647 \<longrightarrow>
        75 / 100 \<le> spec_jitter s \<and> spec_jitter s < 125 / 100
        \<and> 0 < snd (scaredTiming i n k imp s) \<and> snd (scaredTiming i n k imp s) < 2147483647)"
proof -
  let ?f = "(3 / 10 + 22 / 100 * real k) * spec_curve (real i / real (max n 1))
                       * spec_impMult imp * spec_jitter s"
  have v: "fst (scaredTiming i n k imp s) = max (25 / 100) ?f"
    by (simp add: scaredTiming_def Let_def spec_curve_def spec_impMult_def spec_jitter_def
        mult.commute)
  have st: "snd (scaredTiming i n k imp s) = snd (rng s)"
    by (simp add: scaredTiming_def Let_def)
  have lo: "25 / 100 \<le> fst (scaredTiming i n k imp s)" unfolding v by simp
  have ex: "fst (scaredTiming i n k imp s) = ?f" if "25 / 100 \<le> ?f"
    unfolding v using that by (simp add: max_def)
  have rg: "75 / 100 \<le> spec_jitter s \<and> spec_jitter s < 125 / 100
        \<and> 0 < snd (scaredTiming i n k imp s) \<and> snd (scaredTiming i n k imp s) < 2147483647"
    if "0 < s \<and> s < 2147483647"
  proof -
    from that have a: "0 < s" and b: "s < 2147483647" by simp_all
    show ?thesis
      unfolding st using spec_jitter_range [OF a b] rng_range(3,4) [OF a b] by simp
  qed
  from v st lo ex rg show ?thesis by blast
qed

theorem scaredTiming_model_witness:
  "fst (scaredTiming 0 10 1 ''normal'' 42) =
      (3 / 10 + 22 / 100) * (13 / 10) * (75 / 100 + 705893 / 2147483646 * (5 / 10))
   \<and> 75 / 100 \<le> spec_jitter 42 \<and> spec_jitter 42 < 125 / 100
   \<and> snd (scaredTiming 0 10 1 ''normal'' 42) = 705894"
proof -
  have r: "rng 42 = (705893 / 2147483646, 705894)" by (simp add: rng_def js_rem_def Let_def)
  have j: "spec_jitter 42 = 75 / 100 + 705893 / 2147483646 * (5 / 10)"
    by (simp add: spec_jitter_def r)
  have c: "spec_curve (real 0 / real (max 10 1)) = 13 / 10" by (simp add: spec_curve_def)
  have m: "spec_impMult ''normal'' = 1" by (simp add: spec_impMult_def)
  have big: "25 / 100 \<le> (3 / 10 + 22 / 100 * real 1) * spec_curve (real 0 / real (max 10 1))
                       * spec_impMult ''normal'' * spec_jitter 42"
    unfolding c m j by simp
  have s: "(0::int) < 42 \<and> (42::int) < 2147483647" by simp
  from scaredTiming_model [of 0 10 1 "''normal''" 42] big s
  have "fst (scaredTiming 0 10 1 ''normal'' 42) =
          (3 / 10 + 22 / 100 * real 1) * spec_curve (real 0 / real (max 10 1))
             * spec_impMult ''normal'' * spec_jitter 42"
    and "75 / 100 \<le> spec_jitter 42" and "spec_jitter 42 < 125 / 100"
    and "snd (scaredTiming 0 10 1 ''normal'' 42) = snd (rng 42)"
    by blast+
  then show ?thesis unfolding c m j r by simp
qed

text \<open>
  Without the floor the formula is wrong: a one-line flash block at position 6 of 10 gets
  0.25 seconds, while the product is about 0.082.
\<close>

theorem scaredTiming_floor_counterexample:
  "fst (scaredTiming 6 10 1 ''flash'' 42) = 25 / 100
   \<and> (3 / 10 + 22 / 100 * real 1) * spec_curve (real 6 / real 10) * spec_impMult ''flash''
        * (75 / 100 + fst (rng 42) * (5 / 10)) < 25 / 100
   \<and> fst (scaredTiming 6 10 1 ''flash'' 42) \<noteq>
       (3 / 10 + 22 / 100 * real 1) * spec_curve (real 6 / real 10) * spec_impMult ''flash''
        * (75 / 100 + fst (rng 42) * (5 / 10))"
  by (simp add: scaredTiming_def rng_def js_rem_def Let_def spec_curve_def spec_impMult_def)



lemma scaredTiming_ge: "25 / 100 \<le> fst (scaredTiming i n k imp s)"
  by (simp add: scaredTiming_def Let_def)

lemma holds_loop_holds: "\<forall>b\<in>set (fst (holds_loop i n raw s)). 25 / 100 \<le> holdSec b"
proof (induction raw arbitrary: i s)
  case Nil
  show ?case by simp
next
  case (Cons b bs)
  show ?case using Cons.IH scaredTiming_ge by (simp add: Let_def)
qed

section \<open>Properties of generateNetwork and updateNodes\<close>

lemma rotate_node_spec: "rotate_node n = spec_rotate n"
  by (simp add: rotate_node_def spec_rotate_def Let_def)

lemma update_nodes_loop_eq:
  "update_nodes_loop i ns = take i ns @ map rotate_node (drop i ns)"
proof (induction i ns rule: update_nodes_loop.induct)
  case (1 i ns)
  show ?case
  proof (cases "i < length ns")
    case True
    let ?ns' = "ns[i := rotate_node (ns ! i)]"
    have "update_nodes_loop i ns = update_nodes_loop (Suc i) ?ns'"
      using True by (subst update_nodes_loop.simps) simp
    also have "\<dots> = take (Suc i) ?ns' @ map rotate_node (drop (Suc i) ?ns')"
      using "1.IH" [OF True] .
    also have "take (Suc i) ?ns' = take i ns @ [rotate_node (ns ! i)]"
      using True by (simp add: take_Suc_conv_app_nth)
    also have "drop (Suc i) ?ns' = drop (Suc i) ns" by simp
    also have "(take i ns @ [rotate_node (ns ! i)]) @ map rotate_node (drop (Suc i) ns)
        = take i ns @ map rotate_node (drop i ns)"
      using True by (simp add: Cons_nth_drop_Suc [symmetric])
    finally show ?thesis .
  next
    case False
    then show ?thesis by (subst update_nodes_loop.simps) simp
  qed
qed

lemma step_particle_box:
  "0 \<le> p_x (step_particle p) \<and> p_x (step_particle p) \<le> W
   \<and> 0 \<le> p_y (step_particle p) \<and> p_y (step_particle p) \<le> H"
  by (simp add: step_particle_def Let_def W_def H_def)

lemma step_particle_fixed:
  "p_vx (step_particle p) = p_vx p \<and> p_vy (step_particle p) = p_vy p
   \<and> p_r (step_particle p) = p_r p \<and> p_life (step_particle p) = p_life p + 3 / 1000"
  by (simp add: step_particle_def Let_def)

lemma step_particle_x:
  "p_x (step_particle p) =
     (if p_x p + p_vx p < 0 then W else if p_x p + p_vx p > W then 0 else p_x p + p_vx p)"
  by (simp add: step_particle_def Let_def W_def)

lemma step_particle_y:
  "p_y (step_particle p) =
     (if p_y p + p_vy p < 0 then H else if p_y p + p_vy p > H then 0 else p_y p + p_vy p)"
  by (simp add: step_particle_def Let_def H_def)

lemma spec_rotate_fixed:
  "n_orbit (spec_rotate n) = n_orbit n \<and> n_speed (spec_rotate n) = n_speed n
   \<and> n_bits (spec_rotate n) = n_bits n \<and> n_r (spec_rotate n) = n_r n
   \<and> n_label (spec_rotate n) = n_label n \<and> n_base (spec_rotate n) = n_base n"
  by (simp add: spec_rotate_def)

lemma generateNetwork_nodes_hd:
  "\<exists>rest. nodes (generateNetwork e w) = center_node e # rest"
  by (simp add: generateNetwork_def push_particles_def push_rings_def push_connections_def
      push_nodes_def reset_world_def Let_def)

lemma updateNodes_nodes:
  "nodes (updateNodes t w) = take 1 (nodes w) @ map spec_rotate (drop 1 (nodes w))"
proof -
  have "rotate_node = spec_rotate" by (rule ext) (rule rotate_node_spec)
  then show ?thesis by (simp add: updateNodes_def update_nodes_loop_eq)
qed

lemma map_field_updateNodes:
  assumes "\<And>n. f (spec_rotate n) = f n"
  shows "map f (nodes (updateNodes t w)) = map f (nodes w)"
proof -
  have "map f (nodes (updateNodes t w)) = map f (take 1 (nodes w)) @ map f (drop 1 (nodes w))"
    by (simp add: updateNodes_nodes assms)
  also have "\<dots> = map f (take 1 (nodes w) @ drop 1 (nodes w))" by (simp only: map_append)
  also have "\<dots> = map f (nodes w)" by (simp only: append_take_drop_id)
  finally show ?thesis .
qed

text \<open>
  C5. One call of \<open>updateNodes\<close> leaves the connections, the rings and the generator
  state as they are, keeps the number of nodes and of particles, and keeps every node's
  orbit radius, speed, bit weight, radius, label and base flag. The first node (the center
  of a generated network) is untouched; every other node turns by its own speed and gets
  \<open>x, y\<close> from the new angle on its orbit around the center. Every particle keeps its
  velocity and radius, moves by its velocity, is wrapped to the opposite edge when it
  leaves \<open>[0, W] \<times> [0, H]\<close> (so it is inside the box after the call), and its \<open>life\<close>
  phase grows by 0.003.
\<close>

theorem updateNodes_invariant:
  "connections (updateNodes t w) = connections w
   \<and> rings (updateNodes t w) = rings w
   \<and> w_seed (updateNodes t w) = w_seed w
   \<and> length (nodes (updateNodes t w)) = length (nodes w)
   \<and> length (particles (updateNodes t w)) = length (particles w)
   \<and> map n_orbit (nodes (updateNodes t w)) = map n_orbit (nodes w)
   \<and> map n_speed (nodes (updateNodes t w)) = map n_speed (nodes w)
   \<and> map n_bits (nodes (updateNodes t w)) = map n_bits (nodes w)
   \<and> map n_r (nodes (updateNodes t w)) = map n_r (nodes w)
   \<and> map n_label (nodes (updateNodes t w)) = map n_label (nodes w)
   \<and> map n_base (nodes (updateNodes t w)) = map n_base (nodes w)
   \<and> take 1 (nodes (updateNodes t w)) = take 1 (nodes w)
   \<and> drop 1 (nodes (updateNodes t w)) = map spec_rotate (drop 1 (nodes w))
   \<and> hd (nodes (updateNodes t (generateNetwork e w))) = center_node e
   \<and> map p_vx (particles (updateNodes t w)) = map p_vx (particles w)
   \<and> map p_vy (particles (updateNodes t w)) = map p_vy (particles w)
   \<and> map p_r (particles (updateNodes t w)) = map p_r (particles w)
   \<and> (\<forall>i. i < length (particles w) \<longrightarrow>
         p_x (particles (updateNodes t w) ! i) =
           (if p_x (particles w ! i) + p_vx (particles w ! i) < 0 then W
            else if p_x (particles w ! i) + p_vx (particles w ! i) > W then 0
            else p_x (particles w ! i) + p_vx (particles w ! i))
       \<and> p_y (particles (updateNodes t w) ! i) =
           (if p_y (particles w ! i) + p_vy (particles w ! i) < 0 then H
            else if p_y (particles w ! i) + p_vy (particles w ! i) > H then 0
            else p_y (particles w ! i) + p_vy (particles w ! i))
       \<and> p_life (particles (updateNodes t w) ! i) = p_life (particles w ! i) + 3 / 1000
       \<and> 0 \<le> p_x (particles (updateNodes t w) ! i) \<and> p_x (particles (updateNodes t w) ! i) \<le> W
       \<and> 0 \<le> p_y (particles (updateNodes t w) ! i) \<and> p_y (particles (updateNodes t w) ! i) \<le> H)"
proof -
  have fixed: "connections (updateNodes t w) = connections w" "rings (updateNodes t w) = rings w"
    "w_seed (updateNodes t w) = w_seed w"
    by (simp_all add: updateNodes_def)
  have len: "length (nodes (updateNodes t w)) = length (nodes w)"
    "length (particles (updateNodes t w)) = length (particles w)"
    by (simp_all add: updateNodes_def update_nodes_loop_eq)
  have flds: "map n_orbit (nodes (updateNodes t w)) = map n_orbit (nodes w)"
    "map n_speed (nodes (updateNodes t w)) = map n_speed (nodes w)"
    "map n_bits (nodes (updateNodes t w)) = map n_bits (nodes w)"
    "map n_r (nodes (updateNodes t w)) = map n_r (nodes w)"
    "map n_label (nodes (updateNodes t w)) = map n_label (nodes w)"
    "map n_base (nodes (updateNodes t w)) = map n_base (nodes w)"
    by (rule map_field_updateNodes, simp add: spec_rotate_fixed)+
  have nd: "take 1 (nodes (updateNodes t w)) = take 1 (nodes w)"
    "drop 1 (nodes (updateNodes t w)) = map spec_rotate (drop 1 (nodes w))"
    by (cases "nodes w"; simp add: updateNodes_nodes)+
  obtain rest where g: "nodes (generateNetwork e w) = center_node e # rest"
    using generateNetwork_nodes_hd by blast
  have ctr: "hd (nodes (updateNodes t (generateNetwork e w))) = center_node e"
    by (simp add: updateNodes_nodes g)
  have pf: "map p_vx (particles (updateNodes t w)) = map p_vx (particles w)"
    "map p_vy (particles (updateNodes t w)) = map p_vy (particles w)"
    "map p_r (particles (updateNodes t w)) = map p_r (particles w)"
    by (simp_all add: updateNodes_def step_particle_fixed)
  have pp: "particles (updateNodes t w) ! i = step_particle (particles w ! i)"
    if "i < length (particles w)" for i
    using that by (simp add: updateNodes_def)
  have pos: "\<forall>i. i < length (particles w) \<longrightarrow>
         p_x (particles (updateNodes t w) ! i) =
           (if p_x (particles w ! i) + p_vx (particles w ! i) < 0 then W
            else if p_x (particles w ! i) + p_vx (particles w ! i) > W then 0
            else p_x (particles w ! i) + p_vx (particles w ! i))
       \<and> p_y (particles (updateNodes t w) ! i) =
           (if p_y (particles w ! i) + p_vy (particles w ! i) < 0 then H
            else if p_y (particles w ! i) + p_vy (particles w ! i) > H then 0
            else p_y (particles w ! i) + p_vy (particles w ! i))
       \<and> p_life (particles (updateNodes t w) ! i) = p_life (particles w ! i) + 3 / 1000
       \<and> 0 \<le> p_x (particles (updateNodes t w) ! i) \<and> p_x (particles (updateNodes t w) ! i) \<le> W
       \<and> 0 \<le> p_y (particles (updateNodes t w) ! i) \<and> p_y (particles (updateNodes t w) ! i) \<le> H"
  proof (intro allI impI)
    fix i
    assume i: "i < length (particles w)"
    let ?p = "particles w ! i"
    have bx: "0 \<le> p_x (step_particle ?p)" "p_x (step_particle ?p) \<le> W"
      "0 \<le> p_y (step_particle ?p)" "p_y (step_particle ?p) \<le> H"
      using step_particle_box [of ?p] by simp_all
    have lf: "p_life (step_particle ?p) = p_life ?p + 3 / 1000"
      using step_particle_fixed [of ?p] by simp
    show "p_x (particles (updateNodes t w) ! i) =
           (if p_x ?p + p_vx ?p < 0 then W else if p_x ?p + p_vx ?p > W then 0 else p_x ?p + p_vx ?p)
       \<and> p_y (particles (updateNodes t w) ! i) =
           (if p_y ?p + p_vy ?p < 0 then H else if p_y ?p + p_vy ?p > H then 0 else p_y ?p + p_vy ?p)
       \<and> p_life (particles (updateNodes t w) ! i) = p_life ?p + 3 / 1000
       \<and> 0 \<le> p_x (particles (updateNodes t w) ! i) \<and> p_x (particles (updateNodes t w) ! i) \<le> W
       \<and> 0 \<le> p_y (particles (updateNodes t w) ! i) \<and> p_y (particles (updateNodes t w) ! i) \<le> H"
      unfolding pp [OF i]
      by (intro conjI) (rule step_particle_x step_particle_y lf bx)+
  qed
  show ?thesis
    by (intro conjI) (rule fixed len flds nd ctr pf pos)+
qed

theorem updateNodes_invariant_witness:
  "p_x (particles (updateNodes 0
      \<lparr>w_seed = 42,
       nodes = [\<lparr>n_x = 960, n_y = 540, n_r = 6, n_bits = 30, n_label = [], n_orbit = 0,
                 n_angle = 0, n_speed = 0, n_base = True\<rparr>,
                \<lparr>n_x = 1100, n_y = 540, n_r = 3, n_bits = 5, n_label = ''canvas'', n_orbit = 140,
                 n_angle = 0, n_speed = 1 / 500, n_base = False\<rparr>],
       connections = [\<lparr>conn_a = 0, conn_b = 1, conn_dist = 140\<rparr>],
       particles = [\<lparr>p_x = 1, p_y = 1080, p_vx = - 2, p_vy = 1 / 4, p_r = 1, p_life = 0\<rparr>],
       rings = initial_rings\<rparr>) ! 0) = W
   \<and> p_y (particles (updateNodes 0
      \<lparr>w_seed = 42,
       nodes = [\<lparr>n_x = 960, n_y = 540, n_r = 6, n_bits = 30, n_label = [], n_orbit = 0,
                 n_angle = 0, n_speed = 0, n_base = True\<rparr>,
                \<lparr>n_x = 1100, n_y = 540, n_r = 3, n_bits = 5, n_label = ''canvas'', n_orbit = 140,
                 n_angle = 0, n_speed = 1 / 500, n_base = False\<rparr>],
       connections = [\<lparr>conn_a = 0, conn_b = 1, conn_dist = 140\<rparr>],
       particles = [\<lparr>p_x = 1, p_y = 1080, p_vx = - 2, p_vy = 1 / 4, p_r = 1, p_life = 0\<rparr>],
       rings = initial_rings\<rparr>) ! 0) = 0"
proof -
  let ?w = "\<lparr>w_seed = 42,
       nodes = [\<lparr>n_x = 960, n_y = 540, n_r = 6, n_bits = 30, n_label = [], n_orbit = 0,
                 n_angle = 0, n_speed = 0, n_base = True\<rparr>,
                \<lparr>n_x = 1100, n_y = 540, n_r = 3, n_bits = 5, n_label = ''canvas'', n_orbit = 140,
                 n_angle = 0, n_speed = 1 / 500, n_base = False\<rparr>],
       connections = [\<lparr>conn_a = 0, conn_b = 1, conn_dist = 140\<rparr>],
       particles = [\<lparr>p_x = 1, p_y = 1080, p_vx = - 2, p_vy = 1 / 4, p_r = 1, p_life = 0\<rparr>],
       rings = initial_rings\<rparr>"
  have i: "0 < length (particles ?w)" by simp
  from updateNodes_invariant [of 0 ?w] i
  have "p_x (particles (updateNodes 0 ?w) ! 0) =
           (if p_x (particles ?w ! 0) + p_vx (particles ?w ! 0) < 0 then W
            else if p_x (particles ?w ! 0) + p_vx (particles ?w ! 0) > W then 0
            else p_x (particles ?w ! 0) + p_vx (particles ?w ! 0))"
   and "p_y (particles (updateNodes 0 ?w) ! 0) =
           (if p_y (particles ?w ! 0) + p_vy (particles ?w ! 0) < 0 then H
            else if p_y (particles ?w ! 0) + p_vy (particles ?w ! 0) > H then 0
            else p_y (particles ?w ! 0) + p_vy (particles ?w ! 0))"
    by blast+
  then show ?thesis by (simp add: W_def H_def)
qed



section \<open>Properties of the frame loop\<close>

text \<open>One turn of the loop under each kind of answer.\<close>

lemma frame_loop_turn_delivered:
  assumes "gf < tf" and "delivered (ans (calls s))"
  shows "frame_loop ans render tf gf s =
           frame_loop ans render tf (gf + 1)
             (s\<lparr>written := written s @ [render gf], calls := Suc (calls s),
                steps := steps s @ spec_steps ans (calls s) gf\<rparr>)"
proof -
  from assms(2) consider "ans (calls s) = Accepted" | "ans (calls s) = FullDrains"
    by (auto simp: delivered_def)
  then show ?thesis
  proof cases
    case 1
    then show ?thesis
      using assms(1)
      by (subst frame_loop.simps) (simp add: Let_def stdin_write_def spec_steps_def canWrite_def)
  next
    case 2
    then show ?thesis
      using assms(1)
      by (subst frame_loop.simps) (simp add: Let_def stdin_write_def spec_steps_def canWrite_def)
  qed
qed

lemma frame_loop_turn_stalled:
  assumes "gf < tf" and "ans (calls s) = FullNeverDrains"
  shows "frame_loop ans render tf gf s =
           Stalled (s\<lparr>written := written s @ [render gf], calls := Suc (calls s),
                      steps := steps s @ [Wrote gf, Suspended gf]\<rparr>)"
  using assms by (subst frame_loop.simps) (simp add: Let_def stdin_write_def)

lemma frame_loop_turn_broken:
  assumes "gf < tf" and "ans (calls s) = PipeBroken txt"
  shows "frame_loop ans render tf gf s =
           Broke (s\<lparr>calls := Suc (calls s), steps := steps s @ [Wrote gf]\<rparr>) txt"
  using assms by (subst frame_loop.simps) (simp add: Let_def stdin_write_def)

lemma frame_loop_end: "\<not> gf < tf \<Longrightarrow> frame_loop ans render tf gf s = Done s"
  by (subst frame_loop.simps) simp

lemma arrived_0: "arrived ans render 0 = new_stream"
  by (simp add: arrived_def new_stream_def)

lemma arrived_next:
  assumes "0 \<le> n"
  shows "(arrived ans render n)\<lparr>written := written (arrived ans render n) @ [render n],
            calls := Suc (calls (arrived ans render n)),
            steps := steps (arrived ans render n) @ spec_steps ans (calls (arrived ans render n)) n\<rparr>
         = arrived ans render (n + 1)"
proof -
  have u: "[0..n] = [0..n - 1] @ [n]"
    using assms upto_rec2 [of 0 n] by simp
  have c: "nat (n + 1) = Suc (nat n)" using assms by simp
  show ?thesis by (simp add: arrived_def u c)
qed

lemma frame_loop_advance:
  assumes "0 \<le> n" and "n \<le> tf" and "\<forall>j < nat n. delivered (ans j)"
  shows "frame_loop ans render tf 0 new_stream = frame_loop ans render tf n (arrived ans render n)"
  using assms
proof (induction n rule: int_ge_induct)
  case base
  show ?case by (simp add: arrived_0)
next
  case (step i)
  have lt: "i < tf" using step.prems(1) by simp
  have pre: "\<forall>j < nat i. delivered (ans j)" using step.prems(2) step.hyps by simp
  have here: "delivered (ans (calls (arrived ans render i)))"
    using step.prems(2) step.hyps by (simp add: arrived_def)
  have "frame_loop ans render tf 0 new_stream = frame_loop ans render tf i (arrived ans render i)"
    using step.IH lt pre by simp
  also have "\<dots> = frame_loop ans render tf (i + 1) (arrived ans render (i + 1))"
    by (simp only: frame_loop_turn_delivered [where s = "arrived ans render i" and ans = ans
          and gf = i and tf = tf and render = render, OF lt here] arrived_next [OF step.hyps])
  finally show ?case .
qed

lemma frame_loop_completes:
  assumes "\<forall>k < nat totalFrames. delivered (ans k)"
  shows "frame_loop ans render totalFrames 0 new_stream
           = Done (arrived ans render (max 0 totalFrames))"
proof (cases "0 \<le> totalFrames")
  case True
  have "frame_loop ans render totalFrames 0 new_stream
      = frame_loop ans render totalFrames totalFrames (arrived ans render totalFrames)"
    by (rule frame_loop_advance [OF True order_refl assms])
  then show ?thesis using True by (simp add: frame_loop_end max_def)
next
  case False
  then show ?thesis by (simp add: frame_loop_end max_def arrived_0)
qed

lemma frame_loop_stalls:
  assumes "k < nat totalFrames" and "\<forall>j < k. delivered (ans j)" and "ans k = FullNeverDrains"
  shows "frame_loop ans render totalFrames 0 new_stream
           = Stalled ((arrived ans render (int k))
                \<lparr>written := map render [0..int k], calls := Suc k,
                 steps := steps (arrived ans render (int k)) @ [Wrote (int k), Suspended (int k)]\<rparr>)"
proof -
  have lt: "int k < totalFrames" using assms(1) by simp
  have pre: "\<forall>j < nat (int k). delivered (ans j)" using assms(2) by simp
  have a: "ans (calls (arrived ans render (int k))) = FullNeverDrains"
    using assms(3) by (simp add: arrived_def)
  have u: "[0..int k] = [0..int k - 1] @ [int k]" using upto_rec2 [of 0 "int k"] by simp
  have le: "int k \<le> totalFrames" using lt by simp
  have "frame_loop ans render totalFrames 0 new_stream
      = frame_loop ans render totalFrames (int k) (arrived ans render (int k))"
    by (rule frame_loop_advance [OF _ le pre]) simp
  also have "\<dots> = Stalled ((arrived ans render (int k))
                \<lparr>written := written (arrived ans render (int k)) @ [render (int k)],
                 calls := Suc (calls (arrived ans render (int k))),
                 steps := steps (arrived ans render (int k)) @ [Wrote (int k), Suspended (int k)]\<rparr>)"
    by (rule frame_loop_turn_stalled [where s = "arrived ans render (int k)" and ans = ans
          and gf = "int k" and tf = totalFrames and render = render, OF lt a])
  finally show ?thesis by (simp add: arrived_def u)
qed

lemma frame_loop_breaks:
  assumes "k < nat totalFrames" and "\<forall>j < k. delivered (ans j)" and "ans k = PipeBroken txt"
  shows "frame_loop ans render totalFrames 0 new_stream
           = Broke ((arrived ans render (int k))
                \<lparr>calls := Suc k, steps := steps (arrived ans render (int k)) @ [Wrote (int k)]\<rparr>) txt"
proof -
  have lt: "int k < totalFrames" using assms(1) by simp
  have pre: "\<forall>j < nat (int k). delivered (ans j)" using assms(2) by simp
  have a: "ans (calls (arrived ans render (int k))) = PipeBroken txt"
    using assms(3) by (simp add: arrived_def)
  have le: "int k \<le> totalFrames" using lt by simp
  have "frame_loop ans render totalFrames 0 new_stream
      = frame_loop ans render totalFrames (int k) (arrived ans render (int k))"
    by (rule frame_loop_advance [OF _ le pre]) simp
  also have "\<dots> = Broke ((arrived ans render (int k))
                \<lparr>calls := Suc (calls (arrived ans render (int k))),
                 steps := steps (arrived ans render (int k)) @ [Wrote (int k)]\<rparr>) txt"
    by (rule frame_loop_turn_broken [where s = "arrived ans render (int k)" and ans = ans
          and gf = "int k" and tf = totalFrames and render = render, OF lt a])
  finally show ?thesis by (simp add: arrived_def)
qed

text \<open>Either every call is delivered, or there is a first one that is not.\<close>

lemma first_undelivered:
  fixes ans :: "nat \<Rightarrow> write_answer"
  assumes "\<not> (\<forall>k < n. delivered (ans k))"
  shows "\<exists>k < n. (\<forall>j < k. delivered (ans j)) \<and> \<not> delivered (ans k)"
proof -
  from assms have "\<exists>k. k < n \<and> \<not> delivered (ans k)" by blast
  then obtain k where k: "k < n" "\<not> delivered (ans k)"
    and least: "\<forall>m < k. \<not> (m < n \<and> \<not> delivered (ans m))"
    using exists_least_iff [of "\<lambda>k. k < n \<and> \<not> delivered (ans k)"] by blast
  have "\<forall>j < k. delivered (ans j)"
  proof (intro allI impI)
    fix j assume j: "j < k"
    then have "j < n" using k(1) by simp
    then show "delivered (ans j)" using least j by blast
  qed
  then show ?thesis using k by blast
qed

lemma upto_prefix:
  assumes "0 \<le> m" and "m \<le> max 0 n"
  shows "prefix [0..m - 1] [0..n - 1]"
proof (cases "m < n")
  case True
  then have "[0..n - 1] = [0..m - 1] @ [m..n - 1]"
    using assms(1) upto_split1 [of 0 m "n - 1"] by simp
  then show ?thesis by (simp add: prefix_def)
next
  case False
  with assms have "m = n \<or> m = 0" by (simp add: max_def split: if_splits)
  then show ?thesis by auto
qed

lemma frame_loop_prefix:
  "prefix (written (stream_of (frame_loop ans render totalFrames 0 new_stream)))
          (map render [0..totalFrames - 1])"
proof (cases "\<forall>k < nat totalFrames. delivered (ans k)")
  case True
  have "[0..max 0 totalFrames - 1] = [0..totalFrames - 1]" by (simp add: max_def)
  then show ?thesis by (simp add: frame_loop_completes [OF True] arrived_def)
next
  case False
  from first_undelivered [OF False] obtain k where k: "k < nat totalFrames"
    "\<forall>j < k. delivered (ans j)" "\<not> delivered (ans k)"
    by blast
  have p0: "prefix (map render [0..int k - 1]) (map render [0..totalFrames - 1])"
    using upto_prefix [of "int k" totalFrames] k(1) by (simp add: map_mono_prefix)
  have p1: "prefix (map render [0..int k]) (map render [0..totalFrames - 1])"
    using upto_prefix [of "int k + 1" totalFrames] k(1) by (simp add: map_mono_prefix)
  from k(3) consider "ans k = FullNeverDrains" | t where "ans k = PipeBroken t"
    by (cases "ans k") (auto simp: delivered_def)
  then show ?thesis
  proof cases
    case 1
    show ?thesis using p1 by (simp add: frame_loop_stalls [OF k(1,2) 1])
  next
    case 2
    show ?thesis using p0 by (simp add: frame_loop_breaks [OF k(1,2) 2] arrived_def)
  qed
qed

text \<open>
  C6 (amended). On every input stream the frames handed to the encoder are an initial
  stretch of frames \<open>0, 1, 2, ...\<close> in that order: none is skipped, repeated or out of
  place. On a stream that takes every chunk and fires every drain the loop waits for, the
  loop ends having submitted exactly \<open>totalFrames\<close> buffers, frame \<open>0\<close> to
  \<open>totalFrames - 1\<close> in increasing order, one \<open>write\<close> call each, suspended after each write
  that reported a full buffer (and after no other) until the drain. When the first drain
  that fails to fire is the one after call \<open>k\<close>, the loop stays suspended there: frame \<open>k\<close>
  is the last one written, and fewer than \<open>totalFrames\<close> frames are submitted unless it
  was the last.
\<close>

theorem frame_loop_backpressure:
  "prefix (written (stream_of (frame_loop ans render totalFrames 0 new_stream)))
          (map render [0..totalFrames - 1])
   \<and> ((\<forall>k < nat totalFrames. delivered (ans k)) \<longrightarrow>
        frame_loop ans render totalFrames 0 new_stream =
          Done \<lparr>written = map render [0..totalFrames - 1],
                calls = nat totalFrames,
                steps = concat (map (\<lambda>g. spec_steps ans (nat g) g) [0..totalFrames - 1])\<rparr>
        \<and> length (map render [0..totalFrames - 1]) = nat totalFrames)
   \<and> (\<forall>k < nat totalFrames. (\<forall>j < k. delivered (ans j)) \<and> ans k = FullNeverDrains \<longrightarrow>
        frame_loop ans render totalFrames 0 new_stream =
          Stalled \<lparr>written = map render [0..int k],
                   calls = Suc k,
                   steps = concat (map (\<lambda>g. spec_steps ans (nat g) g) [0..int k - 1])
                           @ [Wrote (int k), Suspended (int k)]\<rparr>
        \<and> length (map render [0..int k]) = Suc k)"
proof (intro conjI impI allI)
  show "prefix (written (stream_of (frame_loop ans render totalFrames 0 new_stream)))
          (map render [0..totalFrames - 1])"
    by (rule frame_loop_prefix)
next
  assume all: "\<forall>k < nat totalFrames. delivered (ans k)"
  have m: "[0..max 0 totalFrames - 1] = [0..totalFrames - 1]" "nat (max 0 totalFrames) = nat totalFrames"
    by (simp_all add: max_def)
  show "frame_loop ans render totalFrames 0 new_stream =
          Done \<lparr>written = map render [0..totalFrames - 1],
                calls = nat totalFrames,
                steps = concat (map (\<lambda>g. spec_steps ans (nat g) g) [0..totalFrames - 1])\<rparr>"
    by (simp add: frame_loop_completes [OF all] arrived_def m)
next
  show "length (map render [0..totalFrames - 1]) = nat totalFrames" by simp
next
  fix k
  assume k: "k < nat totalFrames" and st: "(\<forall>j < k. delivered (ans j)) \<and> ans k = FullNeverDrains"
  from st have pre: "\<forall>j < k. delivered (ans j)" and a: "ans k = FullNeverDrains" by simp_all
  show "frame_loop ans render totalFrames 0 new_stream =
          Stalled \<lparr>written = map render [0..int k],
                   calls = Suc k,
                   steps = concat (map (\<lambda>g. spec_steps ans (nat g) g) [0..int k - 1])
                           @ [Wrote (int k), Suspended (int k)]\<rparr>"
    by (simp add: frame_loop_stalls [OF k pre a] arrived_def)
next
  fix k
  show "length (map render [0..int k]) = Suc k" by simp
qed

text \<open>
  A stream that reports a full buffer on every other call and drains each time, four
  frames; and one whose drain after the third call never comes.
\<close>

theorem frame_loop_backpressure_witness:
  "frame_loop (\<lambda>k. if odd k then FullDrains else Accepted) (\<lambda>g. g) 4 0 new_stream =
     Done \<lparr>written = [0, 1, 2, 3], calls = 4,
           steps = [Wrote 0, Wrote 1, Suspended 1, Resumed 1, Wrote 2, Wrote 3, Suspended 3, Resumed 3]\<rparr>
   \<and> frame_loop (\<lambda>k. if k = 2 then FullNeverDrains else Accepted) (\<lambda>g. g) 4 0 new_stream =
     Stalled \<lparr>written = [0, 1, 2], calls = 3,
              steps = [Wrote 0, Wrote 1, Wrote 2, Suspended 2]\<rparr>"
proof -
  let ?a = "\<lambda>k::nat. if odd k then FullDrains else Accepted"
  let ?b = "\<lambda>k::nat. if k = 2 then FullNeverDrains else Accepted"
  have u: "[0..(4::int) - 1] = [0, 1, 2, 3]" "[0..int 2] = [0, 1, 2]" "[0..int 2 - 1] = [0, 1]"
    by (simp_all add: upto_rec1)
  have da: "\<forall>k < nat 4. delivered (?a k)" by (simp add: delivered_def)
  have db: "(2::nat) < nat 4" "(\<forall>j < 2. delivered (?b j)) \<and> ?b 2 = FullNeverDrains"
    by (simp_all add: delivered_def)
  from frame_loop_backpressure [of ?a "\<lambda>g. g" 4] da
  have "frame_loop ?a (\<lambda>g. g) 4 0 new_stream =
          Done \<lparr>written = map (\<lambda>g. g) [0..4 - 1], calls = nat 4,
                steps = concat (map (\<lambda>g. spec_steps ?a (nat g) g) [0..4 - 1])\<rparr>"
    by blast
  then have A: "frame_loop ?a (\<lambda>g. g) 4 0 new_stream =
     Done \<lparr>written = [0, 1, 2, 3], calls = 4,
           steps = [Wrote 0, Wrote 1, Suspended 1, Resumed 1, Wrote 2, Wrote 3, Suspended 3, Resumed 3]\<rparr>"
    unfolding u by (simp add: spec_steps_def canWrite_def)
  from frame_loop_backpressure [of ?b "\<lambda>g. g" 4] db
  have "frame_loop ?b (\<lambda>g. g) 4 0 new_stream =
          Stalled \<lparr>written = map (\<lambda>g. g) [0..int 2], calls = Suc 2,
                   steps = concat (map (\<lambda>g. spec_steps ?b (nat g) g) [0..int 2 - 1])
                           @ [Wrote (int 2), Suspended (int 2)]\<rparr>"
    by blast
  then have B: "frame_loop ?b (\<lambda>g. g) 4 0 new_stream =
     Stalled \<lparr>written = [0, 1, 2], calls = 3,
              steps = [Wrote 0, Wrote 1, Wrote 2, Suspended 2]\<rparr>"
    unfolding u by (simp add: spec_steps_def canWrite_def)
  show ?thesis by (intro conjI) (rule A B)+
qed

text \<open>
  Not every input stream gets all the frames: with four frames to render and a stream
  whose second call reports a full buffer and never drains, the loop submits frames 0 and
  1 and stays suspended; two buffers are submitted, not four.
\<close>

theorem frame_loop_stall_counterexample:
  "frame_loop (\<lambda>k. if k = 1 then FullNeverDrains else Accepted) (\<lambda>g. g) 4 0 new_stream =
     Stalled \<lparr>written = [0, 1], calls = 2, steps = [Wrote 0, Wrote 1, Suspended 1]\<rparr>
   \<and> length (written (stream_of
        (frame_loop (\<lambda>k. if k = 1 then FullNeverDrains else Accepted) (\<lambda>g. g) 4 0 new_stream))) \<noteq> nat 4"
proof -
  let ?c = "\<lambda>k::nat. if k = 1 then FullNeverDrains else Accepted"
  have d0: "delivered (?c (calls (new_stream :: int stream)))"
    by (simp add: delivered_def new_stream_def)
  have s1: "frame_loop ?c (\<lambda>g. g) 4 0 new_stream
      = frame_loop ?c (\<lambda>g. g) 4 1 \<lparr>written = [0], calls = 1, steps = [Wrote 0]\<rparr>"
    using frame_loop_turn_delivered [where ans = ?c and gf = 0 and tf = 4 and s = "new_stream :: int stream"
        and render = "\<lambda>g. g", OF _ d0]
    by (simp add: new_stream_def spec_steps_def canWrite_def)
  have s2: "frame_loop ?c (\<lambda>g. g) 4 1 \<lparr>written = [0], calls = 1, steps = [Wrote 0]\<rparr>
      = Stalled \<lparr>written = [0, 1], calls = 2, steps = [Wrote 0, Wrote 1, Suspended 1]\<rparr>"
    by (subst frame_loop_turn_stalled) simp_all
  show ?thesis unfolding s1 s2 by simp
qed

section \<open>Properties of the encoder's end and of the audio fallback\<close>

lemma ends_with_mp4:
  "ends_with ''.mp4'' out \<longleftrightarrow> 4 \<le> length out \<and> drop (length out - 4) out = ''.mp4''"
  by (simp add: ends_with_def eval_nat_numeral)

lemma silentPath_length:
  assumes "ends_with ''.mp4'' out"
  shows "length (silentPath out) = length out + 7"
proof -
  have l4: "4 \<le> length out" using assms by (simp add: ends_with_mp4)
  have "silentPath out = take (length out - 4) out @ ''_silent.mp4''"
    using assms by (simp add: silentPath_def replace_mp4_def)
  then have "length (silentPath out) = (length out - 4) + 11" by simp
  then show ?thesis using l4 by simp
qed

lemma silentPath_differs:
  assumes "ends_with ''.mp4'' out"
  shows "silentPath out \<noteq> out"
  using silentPath_length [OF assms] by auto

lemma audioPath_differs:
  assumes "ends_with ''.mp4'' out"
  shows "audioPath out \<noteq> out" and "audioPath out \<noteq> silentPath out"
proof -
  have l4: "4 \<le> length out" using assms by (simp add: ends_with_mp4)
  have a: "audioPath out = take (length out - 4) out @ ''.wav''"
    using assms by (simp add: audioPath_def replace_mp4_def)
  have "length (audioPath out) = (length out - 4) + 4" by (simp add: a)
  then have la: "length (audioPath out) = length out" using l4 by simp
  have "drop (length out - 4) (audioPath out) = ''.wav''" by (simp add: a)
  moreover have "drop (length out - 4) out = ''.mp4''"
    using assms by (simp add: ends_with_mp4)
  ultimately show "audioPath out \<noteq> out" by auto
  show "audioPath out \<noteq> silentPath out"
    using silentPath_length [OF assms] la by auto
qed

lemma ffmpegDone_failed:
  "code \<noteq> Some 0 \<Longrightarrow>
     ffmpegDone pre n (Closed code err eff)
       = Rejected (pre @ code_str code @ [CHR 0x0A] @ slice_last n err)"
  by (simp add: ffmpegDone_def)

lemma apply_effect_other: "p \<noteq> q \<Longrightarrow> apply_effect eff p fs q = fs q"
  by (cases eff) (simp_all add: apply_effect_def)

lemma encoder_writes_other: "p \<noteq> q \<Longrightarrow> encoder_writes p e fs q = fs q"
  by (cases e) (simp_all add: encoder_writes_def apply_effect_other)

text \<open>A loop that runs to its end hands over to the rest of main.\<close>

lemma interrupted_completes:
  assumes "\<forall>k < nat totalFrames. delivered (ans k)"
  shows "interrupted (frame_loop ans render totalFrames 0 new_stream) = None"
  by (simp add: frame_loop_completes [OF assms] interrupted_def)

lemma interrupted_not_ok: "interrupted r \<noteq> Some RenderOk"
  by (cases r) (simp_all add: interrupted_def)

lemma interrupted_broken:
  assumes "k < nat totalFrames" and "\<forall>j < k. delivered (ans j)" and "ans k = PipeBroken txt"
  shows "interrupted (frame_loop ans render totalFrames 0 new_stream) = Some (Crashed txt)"
  by (simp add: frame_loop_breaks [OF assms] interrupted_def)

text \<open>What a failing encoder leaves, whether or not the frame loop got to its end.\<close>

lemma v1_render_failed_encode:
  assumes "code \<noteq> Some 0"
  shows "fst (v1_render ans render tf out (Closed code err eff) fs) = apply_effect eff out fs"
    and "snd (v1_render ans render tf out (Closed code err eff) fs) \<noteq> RenderOk"
  using interrupted_not_ok [of "frame_loop ans render tf 0 new_stream"]
  by (auto simp: v1_render_def v1_finish_def ffmpegDone_failed [OF assms] encoder_writes_def
      split: option.splits)

lemma v2_render_failed_encode:
  assumes "code \<noteq> Some 0"
  shows "fst (v2_render ans render tf out (Closed code err eff) son mrg fs)
           = apply_effect eff (silentPath out) fs"
    and "snd (v2_render ans render tf out (Closed code err eff) son mrg fs) \<noteq> RenderOk"
  using interrupted_not_ok [of "frame_loop ans render tf 0 new_stream"]
  by (auto simp: v2_render_def v2_finish_def ffmpegDone_failed [OF assms] encoder_writes_def
      split: option.splits)

lemma v4_render_failed_encode:
  assumes "code \<noteq> Some 0"
  shows "fst (v4_render ans render tf out (AudioWritten wav) (Closed code err eff) mrg fs)
           = apply_effect eff (silentPath out) (fs(audioPath out \<mapsto> wav))"
    and "snd (v4_render ans render tf out (AudioWritten wav) (Closed code err eff) mrg fs) \<noteq> RenderOk"
  using interrupted_not_ok [of "frame_loop ans render tf 0 new_stream"]
  by (auto simp: v4_render_def v4_finish_def ffmpegDone_failed [OF assms] encoder_writes_def
      split: option.splits)

text \<open>
  The encoder gone while the loop still writes: the process ends with the stream's error,
  and the message of \<open>ffmpegDone\<close> (exit code, stderr) is never printed.
\<close>

lemma render_broken_pipe:
  assumes "k < nat totalFrames" and "\<forall>j < k. delivered (ans j)" and "ans k = PipeBroken txt"
  shows "v1_render ans render totalFrames out e fs = (encoder_writes out e fs, Crashed txt)"
    and "v2_render ans render totalFrames out e son mrg fs
           = (encoder_writes (silentPath out) e fs, Crashed txt)"
    and "v4_render ans render totalFrames out (AudioWritten wav) e mrg fs
           = (encoder_writes (silentPath out) e (fs(audioPath out \<mapsto> wav)), Crashed txt)"
  by (simp_all add: v1_render_def v2_render_def v4_render_def interrupted_broken [OF assms])

lemma finish_input_error:
  "v1_finish out (InputError txt eff) fs = (apply_effect eff out fs, Crashed txt)"
  "v2_finish out (InputError txt eff) son mrg fs = (apply_effect eff (silentPath out) fs, Crashed txt)"
  "v4_finish out (AudioWritten wav) (InputError txt eff) mrg fs
     = (apply_effect eff (silentPath out) (fs(audioPath out \<mapsto> wav)), Crashed txt)"
  by (simp_all add: v1_finish_def v2_finish_def v4_finish_def ffmpegDone_def encoder_writes_def)

lemma v4_render_audio_threw:
  "v4_render ans render totalFrames out (AudioThrew msg) e mrg fs = (fs, RenderFailed msg)"
  by (simp add: v4_render_def)

text \<open>
  C7 (amended). When the frame loop has run to its end and ffmpeg then closes with a status
  other than 0, the render fails with a message that carries the exit code and the tail of
  ffmpeg's stderr (500 characters in v1 and v2, 300 in v4); when the loop has run to its
  end and ffmpeg could not be started, the render fails with the message of the spawn
  error. A render whose encoder closes with a status other than 0 never reports success,
  wherever the frame loop has got to. In v1 ffmpeg writes the output path itself, so what
  the failed run left is at the output path. In v2 and v4 ffmpeg writes the silent path,
  and for an output path that ends in \<open>.mp4\<close> a failed encode leaves the output path as it
  was.
\<close>

theorem encode_failure_outcome:
  assumes "code \<noteq> Some 0"
  shows "((\<forall>k < nat totalFrames. delivered (ans k)) \<longrightarrow>
          v1_render ans render totalFrames out (Closed code err eff) fs =
             (apply_effect eff out fs,
              RenderFailed (''ffmpeg exited with code '' @ code_str code @ [CHR 0x0A] @ slice_last 500 err))
        \<and> v2_render ans render totalFrames out (Closed code err eff) son mrg fs =
             (apply_effect eff (silentPath out) fs,
              RenderFailed (''ffmpeg exited with code '' @ code_str code @ [CHR 0x0A] @ slice_last 500 err))
        \<and> v4_render ans render totalFrames out (AudioWritten wav) (Closed code err eff) mrg fs =
             (apply_effect eff (silentPath out) (fs(audioPath out \<mapsto> wav)),
              RenderFailed (''ffmpeg: '' @ code_str code @ [CHR 0x0A] @ slice_last 300 err))
        \<and> v1_render ans render totalFrames out (SpawnError msg) fs = (fs, RenderFailed msg)
        \<and> v2_render ans render totalFrames out (SpawnError msg) son mrg fs = (fs, RenderFailed msg)
        \<and> v4_render ans render totalFrames out (AudioWritten wav) (SpawnError msg) mrg fs
             = (fs(audioPath out \<mapsto> wav), RenderFailed msg))
   \<and> snd (v1_render ans render totalFrames out (Closed code err eff) fs) \<noteq> RenderOk
   \<and> snd (v2_render ans render totalFrames out (Closed code err eff) son mrg fs) \<noteq> RenderOk
   \<and> snd (v4_render ans render totalFrames out (AudioWritten wav) (Closed code err eff) mrg fs) \<noteq> RenderOk
   \<and> fst (v1_render ans render totalFrames out (Closed code err eff) fs) = apply_effect eff out fs
   \<and> (ends_with ''.mp4'' out \<longrightarrow>
          fst (v2_render ans render totalFrames out (Closed code err eff) son mrg fs) out = fs out
        \<and> fst (v4_render ans render totalFrames out (AudioWritten wav) (Closed code err eff) mrg fs) out
            = fs out)"
proof -
  note d = ffmpegDone_failed [OF assms]
  have ran: "v1_render ans render totalFrames out (Closed code err eff) fs =
             (apply_effect eff out fs,
              RenderFailed (''ffmpeg exited with code '' @ code_str code @ [CHR 0x0A] @ slice_last 500 err))"
    "v2_render ans render totalFrames out (Closed code err eff) son mrg fs =
             (apply_effect eff (silentPath out) fs,
              RenderFailed (''ffmpeg exited with code '' @ code_str code @ [CHR 0x0A] @ slice_last 500 err))"
    "v4_render ans render totalFrames out (AudioWritten wav) (Closed code err eff) mrg fs =
             (apply_effect eff (silentPath out) (fs(audioPath out \<mapsto> wav)),
              RenderFailed (''ffmpeg: '' @ code_str code @ [CHR 0x0A] @ slice_last 300 err))"
    "v1_render ans render totalFrames out (SpawnError msg) fs = (fs, RenderFailed msg)"
    "v2_render ans render totalFrames out (SpawnError msg) son mrg fs = (fs, RenderFailed msg)"
    "v4_render ans render totalFrames out (AudioWritten wav) (SpawnError msg) mrg fs
             = (fs(audioPath out \<mapsto> wav), RenderFailed msg)"
    if all: "\<forall>k < nat totalFrames. delivered (ans k)"
    using interrupted_completes [OF all, of render] assms
    by (simp_all add: v1_render_def v2_render_def v4_render_def v1_finish_def v2_finish_def
        v4_finish_def d ffmpegDone_def encoder_writes_def)
  have keep: "fst (v2_render ans render totalFrames out (Closed code err eff) son mrg fs) out = fs out"
    "fst (v4_render ans render totalFrames out (AudioWritten wav) (Closed code err eff) mrg fs) out
            = fs out"
    if mp4: "ends_with ''.mp4'' out"
    using silentPath_differs [OF mp4] audioPath_differs(1) [OF mp4]
    by (simp_all add: v2_render_failed_encode(1) [OF assms] v4_render_failed_encode(1) [OF assms]
        apply_effect_other)
  note never =
    v1_render_failed_encode [OF assms, of ans render totalFrames out err eff fs]
    v2_render_failed_encode(2) [OF assms, of ans render totalFrames out err eff son mrg fs]
    v4_render_failed_encode(2) [OF assms, of ans render totalFrames out wav err eff mrg fs]
  show ?thesis
    by (intro conjI impI) (erule ran keep | rule never)+
qed

theorem encode_failure_outcome_witness:
  "v2_render (\<lambda>k. FullDrains) (\<lambda>g. g) 3 ''out.mp4'' (Closed (Some 1) ''Unknown encoder'' (Left [0, 0, 1]))
      SonifyThrew (Merged []) (Map.empty(''out.mp4'' \<mapsto> [7, 7])) =
     ((Map.empty(''out.mp4'' \<mapsto> [7, 7]))(''out_silent.mp4'' \<mapsto> [0, 0, 1]),
      RenderFailed (''ffmpeg exited with code 1'' @ [CHR 0x0A] @ ''Unknown encoder''))
   \<and> fst (v2_render (\<lambda>k. FullDrains) (\<lambda>g. g) 3 ''out.mp4''
        (Closed (Some 1) ''Unknown encoder'' (Left [0, 0, 1]))
        SonifyThrew (Merged []) (Map.empty(''out.mp4'' \<mapsto> [7, 7]))) ''out.mp4'' = Some [7, 7]"
proof -
  have c: "Some (1::int) \<noteq> Some 0" by simp
  have a: "\<forall>k < nat 3. delivered ((\<lambda>k. FullDrains) k)" by (simp add: delivered_def)
  have m: "ends_with ''.mp4'' ''out.mp4''" by (simp add: ends_with_def)
  have s: "silentPath ''out.mp4'' = ''out_silent.mp4''"
    by (simp add: silentPath_def replace_mp4_def ends_with_def)
  have t: "code_str (Some 1) = ''1''" "slice_last 500 ''Unknown encoder'' = ''Unknown encoder''"
    by (simp_all add: code_str_def int_str_def slice_last_def)
  from encode_failure_outcome [OF c, of 3 "\<lambda>k. FullDrains" "\<lambda>g. g" "''out.mp4''" "''Unknown encoder''"
      "Left [0, 0, 1]" "Map.empty(''out.mp4'' \<mapsto> [7, 7])" SonifyThrew "Merged []"] a m
  have "v2_render (\<lambda>k. FullDrains) (\<lambda>g. g) 3 ''out.mp4'' (Closed (Some 1) ''Unknown encoder'' (Left [0, 0, 1]))
      SonifyThrew (Merged []) (Map.empty(''out.mp4'' \<mapsto> [7, 7])) =
        (apply_effect (Left [0, 0, 1]) (silentPath ''out.mp4'') (Map.empty(''out.mp4'' \<mapsto> [7, 7])),
         RenderFailed (''ffmpeg exited with code '' @ code_str (Some 1) @ [CHR 0x0A]
            @ slice_last 500 ''Unknown encoder''))"
    and "fst (v2_render (\<lambda>k. FullDrains) (\<lambda>g. g) 3 ''out.mp4''
        (Closed (Some 1) ''Unknown encoder'' (Left [0, 0, 1]))
        SonifyThrew (Merged []) (Map.empty(''out.mp4'' \<mapsto> [7, 7]))) ''out.mp4''
          = (Map.empty(''out.mp4'' \<mapsto> [7, 7])) ''out.mp4''"
    by blast+
  then show ?thesis by (simp add: s t apply_effect_def)
qed

text \<open>
  The output path is not protected in v1: a failed encode that has written three bytes leaves
  them at the output path.
\<close>

theorem encode_failure_counterexample:
  "v1_render (\<lambda>k. FullDrains) (\<lambda>g. g) 3 ''out.mp4''
      (Closed (Some 1) ''Unknown encoder'' (Left [0, 0, 1])) Map.empty =
     (Map.empty(''out.mp4'' \<mapsto> [0, 0, 1]),
      RenderFailed (''ffmpeg exited with code 1'' @ [CHR 0x0A] @ ''Unknown encoder''))
   \<and> fst (v1_render (\<lambda>k. FullDrains) (\<lambda>g. g) 3 ''out.mp4''
      (Closed (Some 1) ''Unknown encoder'' (Left [0, 0, 1])) Map.empty) ''out.mp4''
       = Some [0, 0, 1]"
proof -
  have a: "\<forall>k < nat 3. delivered ((\<lambda>k. FullDrains) k)" by (simp add: delivered_def)
  show ?thesis
    using interrupted_completes [OF a, of "\<lambda>g::int. g"]
    by (simp add: v1_render_def v1_finish_def ffmpegDone_def encoder_writes_def apply_effect_def
        code_str_def int_str_def slice_last_def)
qed

text \<open>
  The audio fallback. In v2 every failure inside the try block (the sonifier throws or times
  out, no wav file is found, the merge throws or times out) ends with the silent video
  renamed to the output path, and so does a failed merge in v4.
\<close>

lemma fallback_rename_moves:
  assumes "fs silent = Some v" and "silent \<noteq> out"
  shows "fallback_rename silent out fs = (fs(silent := None))(out \<mapsto> v)"
  using assms by (simp add: fallback_rename_def renameSync_def)

lemma v2_audio_fallback:
  assumes sv: "fs (silentPath out) = Some v" and ne: "silentPath out \<noteq> out"
    and fail: "son = SonifyThrew \<or> son = NoWav \<or> (son = WavFound \<and> (\<exists>eff. mrg = MergeThrew eff))"
  shows "v2_audio out son mrg fs out = Some v
     \<and> v2_audio out son mrg fs (silentPath out) = None
     \<and> stat_check out (v2_audio out son mrg fs) = RenderOk"
proof -
  have "\<exists>g. v2_audio out son mrg fs = (g(silentPath out := None))(out \<mapsto> v)"
  proof -
    consider "son = SonifyThrew" | "son = NoWav" | eff where "son = WavFound" "mrg = MergeThrew eff"
      using fail by blast
    then show ?thesis
    proof cases
      case 1
      have "v2_audio out son mrg fs = (fs(silentPath out := None))(out \<mapsto> v)"
        using 1 by (simp add: v2_audio_def Let_def
            fallback_rename_moves [where fs = fs and silent = "silentPath out" and out = out and v = v, OF sv ne])
      then show ?thesis by blast
    next
      case 2
      have "v2_audio out son mrg fs = (fs(silentPath out := None))(out \<mapsto> v)"
        using 2 sv ne by (simp add: v2_audio_def Let_def renameSync_def)
      then show ?thesis by blast
    next
      case 3
      have sv': "apply_effect eff out fs (silentPath out) = Some v"
        using sv ne by (simp add: apply_effect_other)
      have "v2_audio out son mrg fs = ((apply_effect eff out fs)(silentPath out := None))(out \<mapsto> v)"
        using 3 by (simp add: v2_audio_def Let_def
            fallback_rename_moves [where fs = "apply_effect eff out fs" and silent = "silentPath out"
              and out = out and v = v, OF sv' ne])
      then show ?thesis by blast
    qed
  qed
  then show ?thesis using ne by (auto simp: stat_check_def)
qed

lemma v4_merge_fallback:
  assumes sv: "fs (silentPath out) = Some v" and ne: "silentPath out \<noteq> out"
  shows "v4_merge out (MergeThrew eff) fs out = Some v
     \<and> v4_merge out (MergeThrew eff) fs (silentPath out) = None
     \<and> stat_check out (v4_merge out (MergeThrew eff) fs) = RenderOk"
proof -
  have sv': "apply_effect eff out fs (silentPath out) = Some v"
    using sv ne by (simp add: apply_effect_other)
  show ?thesis
    using ne by (simp add: v4_merge_def Let_def fallback_rename_moves [where fs = "apply_effect eff out fs" and silent = "silentPath out" and out = out and v = v, OF sv' ne] stat_check_def)
qed

lemma v2_finish_audio_failure:
  assumes mp4: "ends_with ''.mp4'' out"
    and fail: "son = SonifyThrew \<or> son = NoWav \<or> (son = WavFound \<and> (\<exists>eff. mrg = MergeThrew eff))"
  shows "snd (v2_finish out (Closed (Some 0) err (Left v)) son mrg fs) = RenderOk
     \<and> fst (v2_finish out (Closed (Some 0) err (Left v)) son mrg fs) out = Some v"
proof -
  let ?fs1 = "fs(silentPath out \<mapsto> v)"
  have ne: "silentPath out \<noteq> out" by (rule silentPath_differs [OF mp4])
  have sv: "?fs1 (silentPath out) = Some v" by simp
  have e: "v2_finish out (Closed (Some 0) err (Left v)) son mrg fs
      = (v2_audio out son mrg ?fs1, stat_check out (v2_audio out son mrg ?fs1))"
    by (simp add: v2_finish_def ffmpegDone_def encoder_writes_def apply_effect_def Let_def)
  show ?thesis
    unfolding e using v2_audio_fallback [where fs = ?fs1 and out = out and v = v, OF sv ne fail] by simp
qed

lemma v4_finish_merge_failure:
  assumes mp4: "ends_with ''.mp4'' out"
  shows "snd (v4_finish out (AudioWritten wav) (Closed (Some 0) err (Left v)) (MergeThrew eff) fs) = RenderOk
     \<and> fst (v4_finish out (AudioWritten wav) (Closed (Some 0) err (Left v)) (MergeThrew eff) fs) out = Some v"
proof -
  let ?fs1 = "(fs(audioPath out \<mapsto> wav))(silentPath out \<mapsto> v)"
  have ne: "silentPath out \<noteq> out" by (rule silentPath_differs [OF mp4])
  have sv: "?fs1 (silentPath out) = Some v" by simp
  have e: "v4_finish out (AudioWritten wav) (Closed (Some 0) err (Left v)) (MergeThrew eff) fs
      = (v4_merge out (MergeThrew eff) ?fs1, stat_check out (v4_merge out (MergeThrew eff) ?fs1))"
    by (simp add: v4_finish_def ffmpegDone_def encoder_writes_def apply_effect_def Let_def)
  show ?thesis
    unfolding e using v4_merge_fallback [where fs = ?fs1 and out = out and v = v, OF sv ne] by simp
qed

text \<open>
  C8. The specification says that the render succeeds with the silent video in place
  whenever the audio synthesis throws. In v4 the synthesis is \<open>generateAudio\<close>, called
  outside any try block: when it throws, the render fails and the file system is as it
  was, while v2 under a throwing sonifier succeeds with the silent video at the output
  path.
\<close>

theorem v4_audio_synthesis_failure_aborts:
  "v4_finish out (AudioThrew msg) e mrg fs = (fs, RenderFailed msg)
   \<and> v4_finish ''out.mp4'' (AudioThrew ''EISDIR: illegal operation on a directory, open out.wav'')
        (Closed (Some 0) [] (Left [0, 0, 1])) (Merged [0, 0, 1, 5]) Map.empty
      = (Map.empty, RenderFailed ''EISDIR: illegal operation on a directory, open out.wav'')
   \<and> v2_finish ''out.mp4'' (Closed (Some 0) [] (Left [0, 0, 1])) SonifyThrew (Merged [0, 0, 1, 5]) Map.empty
      = (Map.empty(''out.mp4'' \<mapsto> [0, 0, 1]), RenderOk)"
proof -
  have a: "v4_finish out (AudioThrew msg) e mrg fs = (fs, RenderFailed msg)" for out msg e mrg fs
    by (simp add: v4_finish_def)
  have s: "silentPath ''out.mp4'' = ''out_silent.mp4''"
    by (simp add: silentPath_def replace_mp4_def ends_with_def)
  have b: "v2_finish ''out.mp4'' (Closed (Some 0) [] (Left [0, 0, 1])) SonifyThrew (Merged [0, 0, 1, 5]) Map.empty
      = (Map.empty(''out.mp4'' \<mapsto> [0, 0, 1]), RenderOk)"
    by (simp add: v2_finish_def ffmpegDone_def encoder_writes_def apply_effect_def Let_def s
        v2_audio_def fallback_rename_def renameSync_def stat_check_def)
  show ?thesis by (intro conjI) (rule a b)+
qed

end
